theory Spec2Isabelle
  imports Complex_Main "HOL-Library.Multiset"
begin

section \<open>Density grids of getdist (python/getdist/densities.py)\<close>

text \<open>
  The module works on numpy arrays of floats. Numbers are idealised as \<^typ>\<open>real\<close>:
  rounding, overflow and the values \<open>inf\<close> and \<open>nan\<close> are outside the model. Where numpy
  would divide by zero (it warns, yields \<open>inf\<close> or \<open>nan\<close> and carries on) the model
  stops with \<open>NonFinite\<close>, so that a result \<open>Inr\<close> always stands for a finite
  computation of the code. What the code goes on to do with such values is not followed.
\<close>

subsection \<open>Errors\<close>

datatype error =
    DensitiesError string  \<comment> \<open>\<open>raise DensitiesError(msg)\<close>\<close>
  | IndexError             \<comment> \<open>an index out of range (raised by numpy)\<close>
  | ValueError             \<comment> \<open>a bad argument (raised by numpy or scipy)\<close>
  | TypeError              \<comment> \<open>too few points for a spline (raised by scipy)\<close>
  | ZeroDivisionError
  | NonFinite              \<comment> \<open>not an exception: a division by zero, see above\<close>

abbreviation ContourOutOfRange :: error where
  "ContourOutOfRange \<equiv> DensitiesError ''Contour level outside plotted ranges''"

abbreviation EmptyDensity :: error where
  "EmptyDensity \<equiv> DensitiesError ''no samples in bin''"

abbreviation UnknownNormalizationMode :: error where
  "UnknownNormalizationMode \<equiv> DensitiesError ''Density: unknown normalization''"

abbreviation ShapeMismatch :: error where
  "ShapeMismatch \<equiv> DensitiesError ''Array size mismatch in Density arrays''"

subsection \<open>Arrays\<close>

text \<open>
  An N-dimensional numpy array is its shape and its elements in row-major (C) order,
  which is the order of \<open>reshape(-1)\<close>. Arrays live in a store, a list of arrays
  addressed by position: \<open>copy()\<close> allocates a new array at the end of the store, an
  in-place operation such as \<open>a[...] /= 2\<close> overwrites the array at its address, and
  two names for one array are one address.
\<close>

record ndarray =
  shape :: "nat list"
  data :: "real list"

type_synonym addr = nat
type_synonym store = "ndarray list"

definition array1 :: "real list \<Rightarrow> ndarray" where
  "array1 xs = \<lparr>shape = [length xs], data = xs\<rparr>"

text \<open>The index along axis \<open>k\<close> of the element at flat position \<open>i\<close>.\<close>

definition axis_index :: "nat list \<Rightarrow> nat \<Rightarrow> nat \<Rightarrow> nat" where
  "axis_index shp k i = (i div prod_list (drop (Suc k) shp)) mod (shp ! k)"

text \<open>
  \<open>a[..., j, ...] /= 2\<close> with the integer \<open>j\<close> at axis \<open>k\<close> and full slices elsewhere.
\<close>

definition halve_slice :: "nat \<Rightarrow> nat \<Rightarrow> ndarray \<Rightarrow> ndarray" where
  "halve_slice k j a =
     a\<lparr>data := map (\<lambda>(i, v). if axis_index (shape a) k i = j then v / 2 else v)
                   (enumerate 0 (data a))\<rparr>"

fun cumsum_from :: "real \<Rightarrow> real list \<Rightarrow> real list" where
  "cumsum_from acc [] = []"
| "cumsum_from acc (x # xs) = (acc + x) # cumsum_from (acc + x) xs"

definition cumsum :: "real list \<Rightarrow> real list" where
  "cumsum xs = cumsum_from 0 xs"

text \<open>
  \<open>np.searchsorted(a, v)\<close> (side \<open>left\<close>): for an ascending \<open>a\<close>, the first position
  whose entry is not below \<open>v\<close>, or \<open>len(a)\<close>. numpy specifies it for ascending arrays
  only; the model is that position for every array. A cumulative sum of values that are
  not negative is ascending.
\<close>

definition searchsorted :: "real list \<Rightarrow> real \<Rightarrow> nat" where
  "searchsorted a v = length (takeWhile (\<lambda>c. c < v) a)"

text \<open>
  \<open>argsort()\<close> is a parameter of the model: numpy's default sort is not stable, so the
  order of equal entries is not determined. \<open>argsort_ok\<close> is what numpy promises of
  its result; \<open>stable_argsort\<close> is one such order.
\<close>

definition argsort_ok :: "(real list \<Rightarrow> nat list) \<Rightarrow> real list \<Rightarrow> bool" where
  "argsort_ok argsort xs \<longleftrightarrow>
     mset (argsort xs) = mset [0..<length xs] \<and> sorted (map ((!) xs) (argsort xs))"

definition stable_argsort :: "real list \<Rightarrow> nat list" where
  "stable_argsort xs = sort_key ((!) xs) [0..<length xs]"

subsection \<open>getContourLevels (lines 12-48)\<close>

text \<open>
  Lines 28-32: for each axis in turn, the last and then the first slice along it are
  halved in place, in the array at address \<open>b\<close>. Indexing an axis of size 0 with \<open>-1\<close>
  raises.
\<close>

fun halve_edges :: "store \<Rightarrow> addr \<Rightarrow> nat list \<Rightarrow> error option \<times> store" where
  "halve_edges h b [] = (None, h)"
| "halve_edges h b (k # ks) =
     (let n = shape (h ! b) ! k in
      if n = 0 then (Some IndexError, h)
      else
        let h1 = h[b := halve_slice k (n - 1) (h ! b)];
            h2 = h1[b := halve_slice k 0 (h1 ! b)]
        in halve_edges h2 b ks)"

text \<open>Lines 42-47: the loop over the insertion indices, paired with their targets.\<close>

fun contour_levels :: "real list \<Rightarrow> real list \<Rightarrow> (nat \<times> real) list \<Rightarrow> error + real list" where
  "contour_levels sortgrid cs [] = Inr []"
| "contour_levels sortgrid cs ((ix, target) # rest) =
     (if ix = 0 then Inl ContourOutOfRange
      else if length cs \<le> ix then Inl IndexError
      else
        let h = cs ! ix - cs ! (ix - 1) in
        if h = 0 then Inl NonFinite
        else
          let d = (cs ! ix - target) / h;
              level = sortgrid ! ix * (1 - d) + d * sortgrid ! (ix - 1)
          in case contour_levels sortgrid cs rest of
               Inl e \<Rightarrow> Inl e
             | Inr levels \<Rightarrow> Inr (level # levels))"

text \<open>Lines 35-41: from the adjusted array and the input array to the search.\<close>

definition sortgrid_of :: "(real list \<Rightarrow> nat list) \<Rightarrow> ndarray \<Rightarrow> ndarray \<Rightarrow> real list" where
  "sortgrid_of argsort inbins abins = map ((!) (data abins)) (argsort (data inbins))"

definition targets_of :: "ndarray \<Rightarrow> real list \<Rightarrow> real \<Rightarrow> real list" where
  "targets_of abins contours missing_norm =
     map (\<lambda>c. (1 - c) * sum_list (data abins) - missing_norm) contours"

definition cumsum_of :: "(real list \<Rightarrow> nat list) \<Rightarrow> ndarray \<Rightarrow> ndarray \<Rightarrow> real list" where
  "cumsum_of argsort inbins abins = cumsum (sortgrid_of argsort inbins abins)"

definition ixs_of ::
  "(real list \<Rightarrow> nat list) \<Rightarrow> ndarray \<Rightarrow> ndarray \<Rightarrow> real list \<Rightarrow> real \<Rightarrow> nat list" where
  "ixs_of argsort inbins abins contours missing_norm =
     map (searchsorted (cumsum_of argsort inbins abins)) (targets_of abins contours missing_norm)"

definition solve_levels ::
  "(real list \<Rightarrow> nat list) \<Rightarrow> ndarray \<Rightarrow> ndarray \<Rightarrow> real list \<Rightarrow> real \<Rightarrow> error + real list" where
  "solve_levels argsort inbins abins contours missing_norm =
     contour_levels (sortgrid_of argsort inbins abins) (cumsum_of argsort inbins abins)
       (zip (ixs_of argsort inbins abins contours missing_norm)
            (targets_of abins contours missing_norm))"

text \<open>
  The function on the store: \<open>a\<close> is the address of \<open>inbins\<close>. With \<open>half_edge\<close> the
  array is copied to a new address and the copy is halved at its edges; without, \<open>abins\<close>
  is the same address as \<open>inbins\<close>. Line 38 reads \<open>inbins\<close> from the store as it is then.
\<close>

definition getContourLevels_store ::
  "(real list \<Rightarrow> nat list) \<Rightarrow> store \<Rightarrow> addr \<Rightarrow> real list \<Rightarrow> real \<Rightarrow> bool
     \<Rightarrow> (error + real list) \<times> store" where
  "getContourLevels_store argsort h a contours missing_norm half_edge =
     (if half_edge then
        let b = length h;
            h0 = h @ [h ! a]
        in case halve_edges h0 b [0..<length (shape (h0 ! b))] of
             (Some e, h1) \<Rightarrow> (Inl e, h1)
           | (None, h1) \<Rightarrow>
               (solve_levels argsort (h1 ! a) (h1 ! b) contours missing_norm, h1)
      else (solve_levels argsort (h ! a) (h ! a) contours missing_norm, h))"

text \<open>The function on a value: the result for a store that holds only \<open>inbins\<close>.\<close>

definition getContourLevels ::
  "(real list \<Rightarrow> nat list) \<Rightarrow> ndarray \<Rightarrow> real list \<Rightarrow> real \<Rightarrow> bool \<Rightarrow> error + real list" where
  "getContourLevels argsort inbins contours missing_norm half_edge =
     fst (getContourLevels_store argsort [inbins] 0 contours missing_norm half_edge)"

text \<open>
  The array the search works on, as a value: the edge-halved copy with \<open>half_edge\<close>,
  the input itself without.
\<close>

definition adjusted :: "ndarray \<Rightarrow> bool \<Rightarrow> ndarray" where
  "adjusted inbins half_edge =
     (if half_edge then snd (halve_edges [inbins] 0 [0..<length (shape inbins)]) ! 0
      else inbins)"

subsection \<open>Python values\<close>

text \<open>
  An argument that may be a number, a Python list or a numpy array. \<open>np.atleast_1d\<close>
  returns a numpy array of rank at least one as it is, the same object, and builds a new
  array from anything else.
\<close>

datatype pyarg = Scalar real | PyList "real list" | NdArray "real list"

fun atleast_1d :: "pyarg \<Rightarrow> real list" where
  "atleast_1d (Scalar v) = [v]"
| "atleast_1d (PyList vs) = vs"
| "atleast_1d (NdArray vs) = vs"

text \<open>\<open>np.atleast_1d(p) is p\<close>\<close>

fun atleast_1d_is_same :: "pyarg \<Rightarrow> bool" where
  "atleast_1d_is_same (NdArray vs) = True"
| "atleast_1d_is_same _ = False"

text \<open>What a function returns that may return a number or an array.\<close>

datatype pyval = Num real | Arr "real list"

text \<open>\<open>xs[i]\<close> for a Python integer \<open>i\<close>: a negative index counts from the end.\<close>

definition py_nth :: "real list \<Rightarrow> int \<Rightarrow> error + real" where
  "py_nth xs i =
     (if 0 \<le> i \<and> i < int (length xs) then Inr (xs ! nat i)
      else if i < 0 \<and> - int (length xs) \<le> i then Inr (xs ! nat (int (length xs) + i))
      else Inl IndexError)"

text \<open>\<open>np.argmax(a > v)\<close>: the first position whose entry exceeds \<open>v\<close>, and 0 if none does.\<close>

definition argmax_gt :: "real list \<Rightarrow> real \<Rightarrow> nat" where
  "argmax_gt a v =
     (let k = length (takeWhile (\<lambda>c. \<not> v < c) a) in if k = length a then 0 else k)"

subsection \<open>Splines (scipy.interpolate)\<close>

text \<open>
  \<open>splrep\<close> and \<open>splev\<close> belong to scipy. The fit is a parameter of the model: \<open>fit x P\<close>
  is the interpolating cubic spline through the points, as a function of the order of
  the derivative and the coordinate. \<open>splrep\<close> asks for more points than the degree 3.
  \<open>splev\<close> answers with an array of the shape of its argument \<open>x\<close>, takes derivatives
  up to the degree, and with \<open>ext=1\<close> gives 0 outside the interval of the knots.
\<close>

type_synonym spline_fit = "real list \<Rightarrow> real list \<Rightarrow> nat \<Rightarrow> real \<Rightarrow> real"

record tck =
  t_lo :: real
  t_hi :: real
  t_eval :: "nat \<Rightarrow> real \<Rightarrow> real"

definition splrep :: "spline_fit \<Rightarrow> real list \<Rightarrow> real list \<Rightarrow> error + tck" where
  "splrep fit xs ps =
     (if length xs \<le> 3 \<or> length ps \<noteq> length xs then Inl TypeError
      else Inr \<lparr>t_lo = hd xs, t_hi = last xs, t_eval = fit xs ps\<rparr>)"

definition splev :: "real list \<Rightarrow> tck \<Rightarrow> nat \<Rightarrow> nat \<Rightarrow> error + real list" where
  "splev xs s der ext =
     (if 3 < der then Inl ValueError
      else Inr (map (\<lambda>v. if ext = 1 \<and> (v < t_lo s \<or> t_hi s < v) then 0 else t_eval s der v) xs))"

subsection \<open>GridDensity (lines 51-115)\<close>

text \<open>
  The attributes every density grid has. A subclass is a record extension; the method
  \<open>norm_integral\<close>, which each subclass defines, is passed to \<open>normalize\<close> as an
  argument. \<open>view_ranges\<close> is any object.
\<close>

record 'v GridDensity =
  axes :: "real list list"
  view_ranges :: "'v option"
  self_P :: ndarray
  spl :: "tck option"

fun sizes_match :: "nat list \<Rightarrow> real list list \<Rightarrow> bool" where
  "sizes_match (sz # szs) (ax # axs) = (sz = length ax \<and> sizes_match szs axs)"
| "sizes_match _ _ = True"

definition zeros :: "nat list \<Rightarrow> ndarray" where
  "zeros shp = \<lparr>shape = shp, data = replicate (prod_list shp) 0\<rparr>"

definition setP ::
  "('v, 'm) GridDensity_scheme \<Rightarrow> ndarray option \<Rightarrow> error + ('v, 'm) GridDensity_scheme" where
  "setP d P =
     (case P of
        Some p \<Rightarrow>
          if sizes_match (shape p) (axes d) then Inr (d\<lparr>self_P := p, spl := None\<rparr>)
          else Inl ShapeMismatch
      | None \<Rightarrow> Inr (d\<lparr>self_P := zeros (map length (axes d)), spl := None\<rparr>))"

text \<open>\<open>np.max(self.P)\<close>\<close>

definition np_max :: "ndarray \<Rightarrow> error + real" where
  "np_max a = (case data a of [] \<Rightarrow> Inl ValueError | v # vs \<Rightarrow> Inr (fold max vs v))"

definition divide_by :: "ndarray \<Rightarrow> real \<Rightarrow> ndarray" where
  "divide_by a c = a\<lparr>data := map (\<lambda>v. v / c) (data a)\<rparr>"

text \<open>
  \<open>normalize\<close> returns \<open>self\<close>. Dividing the array by a zero norm raises nothing in
  numpy and fills the array with \<open>nan\<close> and \<open>inf\<close>. In place or not, the object holds
  the divided array afterwards; with \<open>in_place\<close> no size is checked.
\<close>

definition normalize ::
  "(('v, 'm) GridDensity_scheme \<Rightarrow> error + real) \<Rightarrow> ('v, 'm) GridDensity_scheme \<Rightarrow> string \<Rightarrow> bool
     \<Rightarrow> error + ('v, 'm) GridDensity_scheme" where
  "normalize norm_integral d by in_place =
     (case (if by = ''integral'' then norm_integral d
            else if by = ''max'' then
              (case np_max (self_P d) of
                 Inl e \<Rightarrow> Inl e
               | Inr nrm \<Rightarrow> if nrm = 0 then Inl EmptyDensity else Inr nrm)
            else Inl UnknownNormalizationMode) of
        Inl e \<Rightarrow> Inl e
      | Inr nrm \<Rightarrow>
          if nrm = 0 then Inl NonFinite
          else if in_place then Inr (d\<lparr>self_P := divide_by (self_P d) nrm, spl := None\<rparr>)
          else (case setP d (Some (divide_by (self_P d) nrm)) of
                  Inl e \<Rightarrow> Inl e
                | Inr d' \<Rightarrow> Inr (d'\<lparr>spl := None\<rparr>)))"

datatype 'v bounds_result =
    ViewRanges 'v                       \<comment> \<open>the override, as it is\<close>
  | AxisBounds "(real \<times> real) list"     \<comment> \<open>a list of \<open>(min, max)\<close>\<close>
  | AxisPair "real \<times> real"              \<comment> \<open>the tuple \<open>(min, max)\<close>\<close>

definition bounds :: "('v, 'm) GridDensity_scheme \<Rightarrow> error + 'v bounds_result" where
  "bounds d =
     (case view_ranges d of
        Some v \<Rightarrow> Inr (ViewRanges v)
      | None \<Rightarrow>
          if [] \<in> set (axes d) then Inl IndexError
          else Inr (AxisBounds (rev (map (\<lambda>ax. (ax ! 0, last ax)) (axes d)))))"

definition GridDensity_getContourLevels ::
  "(real list \<Rightarrow> nat list) \<Rightarrow> ('v, 'm) GridDensity_scheme \<Rightarrow> real list \<Rightarrow> error + real list" where
  "GridDensity_getContourLevels argsort d contours =
     getContourLevels argsort (self_P d) contours 0 True"

subsection \<open>Density1D (lines 118-229)\<close>

record 'v Density1D = "'v GridDensity" +
  d1_n :: nat
  d1_x :: "real list"
  d1_spacing :: real

definition Density1D_init :: "real list \<Rightarrow> ndarray option \<Rightarrow> 'v option \<Rightarrow> error + 'v Density1D" where
  "Density1D_init x P vr =
     (if length x < 2 then Inl IndexError
      else setP \<lparr>axes = [x], view_ranges = vr, self_P = zeros [], spl = None,
                 d1_n = length x, d1_x = x, d1_spacing = x ! 1 - x ! 0\<rparr> P)"

definition Density1D_bounds :: "'v Density1D \<Rightarrow> error + 'v bounds_result" where
  "Density1D_bounds d =
     (case view_ranges d of
        Some v \<Rightarrow> Inr (ViewRanges v)
      | None \<Rightarrow> if d1_x d = [] then Inl IndexError else Inr (AxisPair (d1_x d ! 0, last (d1_x d))))"

definition initSpline :: "spline_fit \<Rightarrow> 'v Density1D \<Rightarrow> error + 'v Density1D" where
  "initSpline fit d =
     (case splrep fit (d1_x d) (data (self_P d)) of
        Inl e \<Rightarrow> Inl e
      | Inr s \<Rightarrow> Inr (d\<lparr>spl := Some s\<rparr>))"

text \<open>\<open>if self.spl is None: self._initSpline()\<close>\<close>

definition ensure_spline :: "spline_fit \<Rightarrow> 'v Density1D \<Rightarrow> error + tck \<times> 'v Density1D" where
  "ensure_spline fit d =
     (case spl d of
        Some s \<Rightarrow> Inr (s, d)
      | None \<Rightarrow>
          (case initSpline fit d of
             Inl e \<Rightarrow> Inl e
           | Inr d' \<Rightarrow> (case spl d' of Some s \<Rightarrow> Inr (s, d') | None \<Rightarrow> Inl TypeError)))"

text \<open>
  \<open>Prob\<close> gives its value and the object, which holds the spline from then on. A number
  is put into a list of one element before it is handed to \<open>splev\<close>.
\<close>

definition Prob :: "spline_fit \<Rightarrow> 'v Density1D \<Rightarrow> pyarg \<Rightarrow> nat \<Rightarrow> error + pyval \<times> 'v Density1D" where
  "Prob fit d x derivative =
     (case ensure_spline fit d of
        Inl e \<Rightarrow> Inl e
      | Inr (s, d') \<Rightarrow>
          (case splev (case x of Scalar v \<Rightarrow> [v] | PyList vs \<Rightarrow> vs | NdArray vs \<Rightarrow> vs)
                      s derivative 1 of
             Inl e \<Rightarrow> Inl e
           | Inr ys \<Rightarrow> Inr (Arr ys, d')))"

text \<open>
  The array of a 1D density has rank 1; \<open>P[1:-1]\<close> is what is left of it without its
  first and its last entry.
\<close>

definition Density1D_integrate :: "'v Density1D \<Rightarrow> ndarray \<Rightarrow> error + real" where
  "Density1D_integrate d P =
     (if data P = [] then Inl IndexError
      else Inr (((data P ! 0 + last (data P)) / 2 + sum_list (butlast (tl (data P))))
                * d1_spacing d))"

definition Density1D_norm_integral :: "'v Density1D \<Rightarrow> error + real" where
  "Density1D_norm_integral d = Density1D_integrate d (self_P d)"

text \<open>\<open>d.normalize(by, in_place).norm_integral()\<close>\<close>

definition Density1D_normalize_norm_integral :: "'v Density1D \<Rightarrow> string \<Rightarrow> bool \<Rightarrow> error + real" where
  "Density1D_normalize_norm_integral d by in_place =
     (case normalize Density1D_norm_integral d by in_place of
        Inl e \<Rightarrow> Inl e
      | Inr d' \<Rightarrow> Density1D_norm_integral d')"

record InterpGrid =
  g_factor :: nat
  g_bign :: int
  g_grid :: "real list"
  g_norm :: real
  g_sortgrid :: "real list"
  g_cumsum :: "real list"

definition initLimitGrids ::
  "spline_fit \<Rightarrow> 'v Density1D \<Rightarrow> nat option \<Rightarrow> error + InterpGrid \<times> 'v Density1D" where
  "initLimitGrids fit d factor =
     (case ensure_spline fit d of
        Inl e \<Rightarrow> Inl e
      | Inr (s, d') \<Rightarrow>
          if factor = None \<and> d1_n d' = 0 then Inl ZeroDivisionError
          else
            let f = (case factor of None \<Rightarrow> max 2 (20000 div d1_n d') | Some k \<Rightarrow> k);
                bign = (int (d1_n d') - 1) * int f + 1
            in if d1_x d' = [] then Inl IndexError
               else if f = 0 then Inl NonFinite
               else
                 (case splev (map (\<lambda>k. d1_x d' ! 0 + real k * d1_spacing d' / real f)
                                  [0..<nat bign])
                             s 0 0 of
                    Inl e \<Rightarrow> Inl e
                  | Inr grid \<Rightarrow>
                      if data (self_P d') = [] then Inl IndexError
                      else Inr (\<lparr>g_factor = f, g_bign = bign, g_grid = grid,
                                  g_norm = sum_list grid - 0.5 * last (data (self_P d'))
                                             - 0.5 * data (self_P d') ! 0,
                                  g_sortgrid = sort grid,
                                  g_cumsum = cumsum (sort grid)\<rparr>, d')))"

text \<open>Lines 205-209: the density threshold for one target.\<close>

definition limit_trial :: "InterpGrid \<Rightarrow> nat \<Rightarrow> real \<Rightarrow> error + real" where
  "limit_trial g ix target =
     (if length (g_sortgrid g) \<le> ix then Inl IndexError
      else if 0 < ix then
        (if length (g_cumsum g) \<le> ix \<or> length (g_sortgrid g) \<le> ix + 1 then Inl IndexError
         else
           let d = g_cumsum g ! ix - g_cumsum g ! (ix - 1) in
           if d = 0 then Inl NonFinite
           else
             let frac = (g_cumsum g ! ix - target) / d
             in Inr ((1 - frac) * g_sortgrid g ! ix + frac * g_sortgrid g ! (ix + 1)))
      else Inr (g_sortgrid g ! ix))"

text \<open>Lines 212-218: the lower bound and its flag.\<close>

definition limit_bot :: "'v Density1D \<Rightarrow> InterpGrid \<Rightarrow> real \<Rightarrow> real \<Rightarrow> error + real \<times> bool" where
  "limit_bot d g trial finespace =
     (if g_grid g = [] \<or> d1_x d = [] then Inl IndexError
      else if trial \<le> g_grid g ! 0 then Inr (d1_x d ! 0, True)
      else
        let i = argmax_gt (g_grid g) trial;
            prev = (if i = 0 then last (g_grid g) else g_grid g ! (i - 1));
            den = g_grid g ! i - prev
        in if den = 0 then Inl NonFinite
           else Inr (d1_x d ! 0 + (real i - (g_grid g ! i - trial) / den) * finespace, False))"

text \<open>Lines 220-226: the upper bound and its flag.\<close>

definition limit_top :: "'v Density1D \<Rightarrow> InterpGrid \<Rightarrow> real \<Rightarrow> real \<Rightarrow> error + real \<times> bool" where
  "limit_top d g trial finespace =
     (if g_grid g = [] \<or> d1_x d = [] then Inl IndexError
      else if trial \<le> last (g_grid g) then Inr (last (d1_x d), True)
      else
        let i = g_bign g - int (argmax_gt (rev (g_grid g)) trial) - 1
        in case py_nth (g_grid g) i of
             Inl e \<Rightarrow> Inl e
           | Inr gi \<Rightarrow>
               (case py_nth (g_grid g) (i + 1) of
                  Inl e \<Rightarrow> Inl e
                | Inr gi1 \<Rightarrow>
                    if gi - gi1 = 0 then Inl NonFinite
                    else Inr (d1_x d ! 0 + (real_of_int i + (gi - trial) / (gi - gi1)) * finespace,
                              False)))"

text \<open>Lines 205-226: the body of the loop up to the tuple \<open>(mn, mx, lim_bot, lim_top)\<close>.\<close>

definition limits_for :: "'v Density1D \<Rightarrow> InterpGrid \<Rightarrow> nat \<Rightarrow> real \<Rightarrow> error + real \<times> real \<times> bool \<times> bool" where
  "limits_for d g ix target =
     (case limit_trial g ix target of
        Inl e \<Rightarrow> Inl e
      | Inr trial \<Rightarrow>
          if g_factor g = 0 then Inl NonFinite
          else
            let finespace = d1_spacing d / real (g_factor g)
            in case limit_bot d g trial finespace of
                 Inl e \<Rightarrow> Inl e
               | Inr (mn, lim_bot) \<Rightarrow>
                   (case limit_top d g trial finespace of
                      Inl e \<Rightarrow> Inl e
                    | Inr (mx, lim_top) \<Rightarrow> Inr (mn, mx, lim_bot, lim_top)))"

datatype limits_result =
    Limits "real \<times> real \<times> bool \<times> bool"           \<comment> \<open>one tuple\<close>
  | LimitsList "(real \<times> real \<times> bool \<times> bool) list"   \<comment> \<open>a list of tuples\<close>

text \<open>
  Lines 204-229: the loop. When \<open>parr is not p\<close> the first pass returns its tuple;
  otherwise the tuples are collected.
\<close>

fun limits_loop ::
  "'v Density1D \<Rightarrow> InterpGrid \<Rightarrow> bool \<Rightarrow> (nat \<times> real) list \<Rightarrow> (real \<times> real \<times> bool \<times> bool) list
     \<Rightarrow> error + limits_result" where
  "limits_loop d g same [] results = Inr (LimitsList results)"
| "limits_loop d g same ((ix, target) # rest) results =
     (case limits_for d g ix target of
        Inl e \<Rightarrow> Inl e
      | Inr r \<Rightarrow>
          if \<not> same then Inr (Limits r)
          else limits_loop d g same rest (results @ [r]))"

text \<open>\<open>getLimits\<close> with the grid given (\<open>interpGrid\<close> is not \<open>None\<close>).\<close>

definition getLimits_with :: "'v Density1D \<Rightarrow> pyarg \<Rightarrow> InterpGrid \<Rightarrow> error + limits_result" where
  "getLimits_with d p g =
     (let parr = atleast_1d p;
          targets = map (\<lambda>q. (1 - q) * g_norm g) parr;
          ixs = map (searchsorted (g_cumsum g)) targets
      in limits_loop d g (atleast_1d_is_same p) (zip ixs targets) [])"

definition getLimits ::
  "spline_fit \<Rightarrow> 'v Density1D \<Rightarrow> pyarg \<Rightarrow> InterpGrid option \<Rightarrow> nat option
     \<Rightarrow> error + limits_result \<times> 'v Density1D" where
  "getLimits fit d p interpGrid accuracy_factor =
     (case interpGrid of
        Some g \<Rightarrow>
          (case getLimits_with d p g of Inl e \<Rightarrow> Inl e | Inr r \<Rightarrow> Inr (r, d))
      | None \<Rightarrow>
          (case initLimitGrids fit d accuracy_factor of
             Inl e \<Rightarrow> Inl e
           | Inr (g, d') \<Rightarrow>
               (case getLimits_with d' p g of Inl e \<Rightarrow> Inl e | Inr r \<Rightarrow> Inr (r, d'))))"

subsection \<open>Density2D (lines 232-269)\<close>

record 'v Density2D = "'v GridDensity" +
  d2_x :: "real list"
  d2_y :: "real list"
  d2_spacing :: real

definition Density2D_init ::
  "real list \<Rightarrow> real list \<Rightarrow> ndarray option \<Rightarrow> 'v option \<Rightarrow> error + 'v Density2D" where
  "Density2D_init x y P vr =
     (if length x < 2 \<or> length y < 2 then Inl IndexError
      else setP \<lparr>axes = [y, x], view_ranges = vr, self_P = zeros [], spl = None,
                 d2_x = x, d2_y = y, d2_spacing = (x ! 1 - x ! 0) * (y ! 1 - y ! 0)\<rparr> P)"

text \<open>\<open>P[i, j]\<close> of an array of rank 2, and the sum of a list of such entries.\<close>

definition at2 :: "ndarray \<Rightarrow> nat \<Rightarrow> nat \<Rightarrow> real" where
  "at2 P i j = data P ! (i * (shape P ! 1) + j)"

text \<open>
  The array of a 2D density has rank 2 (a rank below raises for too many indices).
  The slice \<open>1:-1\<close> of an axis of size \<open>r\<close> is the positions from 1 up to \<open>r - 2\<close>.
\<close>

definition Density2D_integrate :: "'v Density2D \<Rightarrow> ndarray \<Rightarrow> error + real" where
  "Density2D_integrate d P =
     (if length (shape P) \<noteq> 2 \<or> shape P ! 0 = 0 \<or> shape P ! 1 = 0 then Inl IndexError
      else
        let r = shape P ! 0; c = shape P ! 1;
            nrm = (\<Sum>i \<leftarrow> [1..<r - 1]. \<Sum>j \<leftarrow> [1..<c - 1]. at2 P i j)
                   + (at2 P 0 0 + at2 P 0 (c - 1) + at2 P (r - 1) 0 + at2 P (r - 1) (c - 1)) / 4
                   + ((\<Sum>i \<leftarrow> [1..<r - 1]. at2 P i 0) + (\<Sum>j \<leftarrow> [1..<c - 1]. at2 P 0 j)
                      + (\<Sum>i \<leftarrow> [1..<r - 1]. at2 P i (c - 1))
                      + (\<Sum>j \<leftarrow> [1..<c - 1]. at2 P (r - 1) j)) / 2
        in Inr (nrm * d2_spacing d))"

definition Density2D_norm_integral :: "'v Density2D \<Rightarrow> error + real" where
  "Density2D_norm_integral d = Density2D_integrate d (self_P d)"


section \<open>Properties\<close>

subsection \<open>Searching and cumulative sums\<close>

lemma searchsorted_le: "searchsorted a v \<le> length a"
  by (simp add: searchsorted_def length_takeWhile_le)

lemma searchsorted_nth: "searchsorted a v < length a \<Longrightarrow> v \<le> a ! searchsorted a v"
  unfolding searchsorted_def using nth_length_takeWhile [of "\<lambda>c. c < v" a] by simp

lemma searchsorted_before: "i < searchsorted a v \<Longrightarrow> a ! i < v"
  unfolding searchsorted_def
  by (metis (mono_tags, lifting) nth_mem set_takeWhileD takeWhile_nth)

lemma searchsorted_mono: "v \<le> w \<Longrightarrow> searchsorted a v \<le> searchsorted a w"
proof (rule ccontr)
  assume vw: "v \<le> w" and "\<not> searchsorted a v \<le> searchsorted a w"
  then have lt: "searchsorted a w < searchsorted a v" by simp
  then have "a ! searchsorted a w < v" by (rule searchsorted_before)
  moreover have "searchsorted a w < length a"
    using lt searchsorted_le [of a v] by simp
  then have "w \<le> a ! searchsorted a w" by (rule searchsorted_nth)
  ultimately show False using vw by simp
qed

lemma searchsorted_lt_length: "a \<noteq> [] \<Longrightarrow> v \<le> last a \<Longrightarrow> searchsorted a v < length a"
proof (rule ccontr)
  assume ne: "a \<noteq> []" and v: "v \<le> last a" and "\<not> searchsorted a v < length a"
  then have "length a - 1 < searchsorted a v"
    using searchsorted_le [of a v] by (cases a) auto
  then have "a ! (length a - 1) < v" by (rule searchsorted_before)
  then show False using v ne by (simp add: last_conv_nth)
qed

lemma length_cumsum_from: "length (cumsum_from acc xs) = length xs"
  by (induction xs arbitrary: acc) auto

lemma length_cumsum: "length (cumsum xs) = length xs"
  by (simp add: cumsum_def length_cumsum_from)

lemma cumsum_from_nth:
  "i < length xs \<Longrightarrow> cumsum_from acc xs ! i = acc + sum_list (take (Suc i) xs)"
proof (induction xs arbitrary: acc i)
  case Nil
  then show ?case by simp
next
  case (Cons x xs)
  then show ?case by (cases i) auto
qed

lemma cumsum_nth: "i < length xs \<Longrightarrow> cumsum xs ! i = sum_list (take (Suc i) xs)"
  by (simp add: cumsum_def cumsum_from_nth)

lemma cumsum_step:
  assumes "0 < i" "i < length xs"
  shows "cumsum xs ! i - cumsum xs ! (i - 1) = xs ! i"
proof -
  obtain j where j: "i = Suc j" using assms(1) by (cases i) auto
  have "take (Suc i) xs = take i xs @ [xs ! i]"
    using assms(2) by (simp add: take_Suc_conv_app_nth)
  then show ?thesis using assms j by (simp add: cumsum_nth)
qed

lemma cumsum_last: "xs \<noteq> [] \<Longrightarrow> last (cumsum xs) = sum_list xs"
proof -
  assume ne: "xs \<noteq> []"
  then have "last (cumsum xs) = cumsum xs ! (length xs - 1)"
    by (metis last_conv_nth length_cumsum length_0_conv)
  also have "\<dots> = sum_list (take (Suc (length xs - 1)) xs)"
    using ne by (intro cumsum_nth) simp
  finally show ?thesis using ne by simp
qed

subsection \<open>Halving the edges\<close>

lemma shape_halve_slice [simp]: "shape (halve_slice k j a) = shape a"
  by (simp add: halve_slice_def)

lemma length_halve_slice [simp]: "length (data (halve_slice k j a)) = length (data a)"
  by (simp add: halve_slice_def)

lemma nonneg_halve_slice:
  assumes "\<forall>v \<in> set (data a). 0 \<le> v"
  shows "\<forall>v \<in> set (data (halve_slice k j a)). 0 \<le> v"
proof
  fix v assume "v \<in> set (data (halve_slice k j a))"
  then obtain i w where "(i, w) \<in> set (enumerate 0 (data a))"
    and v: "v = (if axis_index (shape a) k i = j then w / 2 else w)"
    by (auto simp: halve_slice_def)
  then have "w \<in> set (data a)" by (auto simp: in_set_enumerate_eq)
  then show "0 \<le> v" using assms v by auto
qed

lemma halve_edges_step:
  "b < length h \<Longrightarrow> shape (h ! b) ! k \<noteq> 0 \<Longrightarrow>
   halve_edges h b (k # ks) =
     halve_edges (h[b := halve_slice k 0 (halve_slice k (shape (h ! b) ! k - 1) (h ! b))]) b ks"
  by (simp add: Let_def)

lemma halve_edges_stop:
  "shape (h ! b) ! k = 0 \<Longrightarrow> halve_edges h b (k # ks) = (Some IndexError, h)"
  by simp

declare halve_edges.simps(2) [simp del]

lemma halve_edges_local:
  "b < length h \<Longrightarrow>
   halve_edges h b ks =
     (fst (halve_edges [h ! b] 0 ks), h[b := snd (halve_edges [h ! b] 0 ks) ! 0])"
proof (induction ks arbitrary: h)
  case Nil
  then show ?case by simp
next
  case (Cons k ks)
  let ?n = "shape (h ! b) ! k"
  show ?case
  proof (cases "?n = 0")
    case True
    then have "halve_edges h b (k # ks) = (Some IndexError, h)"
      and "halve_edges [h ! b] 0 (k # ks) = (Some IndexError, [h ! b])"
      by (simp_all add: halve_edges_stop)
    then show ?thesis by simp
  next
    case False
    define A where "A = halve_slice k 0 (halve_slice k (?n - 1) (h ! b))"
    have l: "halve_edges h b (k # ks) = halve_edges (h[b := A]) b ks"
      using Cons.prems False unfolding A_def by (rule halve_edges_step)
    have "0 < length [h ! b]" "shape ([h ! b] ! 0) ! k \<noteq> 0" using False by simp_all
    then have "halve_edges [h ! b] 0 (k # ks) =
        halve_edges ([h ! b][0 := halve_slice k 0 (halve_slice k (shape ([h ! b] ! 0) ! k - 1) ([h ! b] ! 0))]) 0 ks"
      by (rule halve_edges_step)
    then have r: "halve_edges [h ! b] 0 (k # ks) = halve_edges [A] 0 ks"
      unfolding A_def by simp
    have "b < length (h[b := A])" using Cons.prems by simp
    from Cons.IH [OF this]
    have "halve_edges (h[b := A]) b ks =
       (fst (halve_edges [A] 0 ks), h[b := snd (halve_edges [A] 0 ks) ! 0])"
      using Cons.prems by simp
    then show ?thesis unfolding l r .
  qed
qed

lemma halve_edges_single_step:
  assumes "shape a ! k \<noteq> 0"
  shows "halve_edges [a] 0 (k # ks) =
     halve_edges [halve_slice k 0 (halve_slice k (shape a ! k - 1) a)] 0 ks"
proof -
  have "0 < length [a]" "shape ([a] ! 0) ! k \<noteq> 0" using assms by simp_all
  then have "halve_edges [a] 0 (k # ks) =
     halve_edges ([a][0 := halve_slice k 0 (halve_slice k (shape ([a] ! 0) ! k - 1) ([a] ! 0))]) 0 ks"
    by (rule halve_edges_step)
  then show ?thesis by simp
qed

lemma halve_edges_single_stop:
  "shape a ! k = 0 \<Longrightarrow> halve_edges [a] 0 (k # ks) = (Some IndexError, [a])"
  by (simp add: halve_edges_stop)

lemma halve_edges_single_length: "length (snd (halve_edges [a] 0 ks)) = 1"
proof (induction ks arbitrary: a)
  case Nil
  show ?case by simp
next
  case (Cons k ks)
  show ?case
  proof (cases "shape a ! k = 0")
    case True
    then show ?thesis by (simp add: halve_edges_single_stop)
  next
    case False
    then show ?thesis by (simp add: halve_edges_single_step Cons.IH)
  qed
qed

lemma halve_edges_single_shape: "shape (snd (halve_edges [a] 0 ks) ! 0) = shape a"
proof (induction ks arbitrary: a)
  case Nil
  show ?case by simp
next
  case (Cons k ks)
  show ?case
  proof (cases "shape a ! k = 0")
    case True
    then show ?thesis by (simp add: halve_edges_single_stop)
  next
    case False
    then show ?thesis by (simp add: halve_edges_single_step Cons.IH)
  qed
qed

lemma halve_edges_single_data_length:
  "length (data (snd (halve_edges [a] 0 ks) ! 0)) = length (data a)"
proof (induction ks arbitrary: a)
  case Nil
  show ?case by simp
next
  case (Cons k ks)
  show ?case
  proof (cases "shape a ! k = 0")
    case True
    then show ?thesis by (simp add: halve_edges_single_stop)
  next
    case False
    then show ?thesis by (simp add: halve_edges_single_step Cons.IH)
  qed
qed

lemma halve_edges_single_nonneg:
  "\<forall>v \<in> set (data a). 0 \<le> v \<Longrightarrow> \<forall>v \<in> set (data (snd (halve_edges [a] 0 ks) ! 0)). 0 \<le> v"
proof (induction ks arbitrary: a)
  case Nil
  then show ?case by simp
next
  case (Cons k ks)
  show ?case
  proof (cases "shape a ! k = 0")
    case True
    then show ?thesis using Cons.prems by (simp add: halve_edges_single_stop)
  next
    case False
    let ?A = "halve_slice k 0 (halve_slice k (shape a ! k - 1) a)"
    have "\<forall>v \<in> set (data ?A). 0 \<le> v"
      using Cons.prems by (intro nonneg_halve_slice)
    then have "\<forall>v \<in> set (data (snd (halve_edges [?A] 0 ks) ! 0)). 0 \<le> v"
      by (rule Cons.IH)
    moreover have "halve_edges [a] 0 (k # ks) = halve_edges [?A] 0 ks"
      using False by (rule halve_edges_single_step)
    ultimately show ?thesis by simp
  qed
qed

lemma halve_edges_ok:
  "\<forall>k \<in> set ks. shape a ! k \<noteq> 0 \<Longrightarrow> fst (halve_edges [a] 0 ks) = None"
proof (induction ks arbitrary: a)
  case Nil
  then show ?case by simp
next
  case (Cons k ks)
  let ?A = "halve_slice k 0 (halve_slice k (shape a ! k - 1) a)"
  have r: "halve_edges [a] 0 (k # ks) = halve_edges [?A] 0 ks"
    using Cons.prems by (simp add: halve_edges_single_step)
  have "\<forall>k \<in> set ks. shape ?A ! k \<noteq> 0"
    using Cons.prems by simp
  then have "fst (halve_edges [?A] 0 ks) = None" by (rule Cons.IH)
  then show ?case by (simp only: r)
qed

lemma halve_edges_fails:
  "\<exists>k \<in> set ks. shape a ! k = 0 \<Longrightarrow> fst (halve_edges [a] 0 ks) = Some IndexError"
proof (induction ks arbitrary: a)
  case Nil
  then show ?case by simp
next
  case (Cons k ks)
  show ?case
  proof (cases "shape a ! k = 0")
    case True
    then show ?thesis by (simp add: halve_edges_single_stop)
  next
    case False
    let ?A = "halve_slice k 0 (halve_slice k (shape a ! k - 1) a)"
    have r: "halve_edges [a] 0 (k # ks) = halve_edges [?A] 0 ks"
      using False by (simp add: halve_edges_single_step)
    have "\<exists>k \<in> set ks. shape ?A ! k = 0" using Cons.prems False by auto
    then have "fst (halve_edges [?A] 0 ks) = Some IndexError" by (rule Cons.IH)
    then show ?thesis by (simp only: r)
  qed
qed

lemma shape_adjusted: "shape (adjusted a he) = shape a"
  by (simp add: adjusted_def halve_edges_single_shape)

lemma length_data_adjusted: "length (data (adjusted a he)) = length (data a)"
  by (simp add: adjusted_def halve_edges_single_data_length)

lemma nonneg_adjusted:
  "\<forall>v \<in> set (data a). 0 \<le> v \<Longrightarrow> \<forall>v \<in> set (data (adjusted a he)). 0 \<le> v"
  using halve_edges_single_nonneg [of a "[0..<length (shape a)]"]
  by (cases he) (simp_all add: adjusted_def)

lemma adjusted_False: "adjusted a False = a"
  by (simp add: adjusted_def)

lemma getContourLevels_store_eq:
  assumes "a < length h"
  shows "getContourLevels_store argsort h a contours missing_norm half_edge =
     (if half_edge then
        (case fst (halve_edges [h ! a] 0 [0..<length (shape (h ! a))]) of
           Some e \<Rightarrow> Inl e
         | None \<Rightarrow> solve_levels argsort (h ! a) (adjusted (h ! a) True) contours missing_norm,
         h @ [adjusted (h ! a) True])
      else (solve_levels argsort (h ! a) (h ! a) contours missing_norm, h))"
proof (cases half_edge)
  case False
  then show ?thesis by (simp add: getContourLevels_store_def)
next
  case True
  let ?h0 = "h @ [h ! a]"
  let ?b = "length h"
  let ?ks = "[0..<length (shape (h ! a))]"
  have "?b < length ?h0" by simp
  then have "halve_edges ?h0 ?b ?ks =
     (fst (halve_edges [?h0 ! ?b] 0 ?ks), ?h0[?b := snd (halve_edges [?h0 ! ?b] 0 ?ks) ! 0])"
    by (rule halve_edges_local)
  then have loc: "halve_edges ?h0 ?b ?ks =
     (fst (halve_edges [h ! a] 0 ?ks), h @ [adjusted (h ! a) True])"
    by (simp add: adjusted_def)
  have a0: "?h0 ! a = h ! a" using assms by (simp add: nth_append)
  have sh: "shape (?h0 ! ?b) = shape (h ! a)" by simp
  have "getContourLevels_store argsort h a contours missing_norm True =
     (case halve_edges ?h0 ?b ?ks of
             (Some e, h1) \<Rightarrow> (Inl e, h1)
           | (None, h1) \<Rightarrow>
               (solve_levels argsort (h1 ! a) (h1 ! ?b) contours missing_norm, h1))"
    unfolding getContourLevels_store_def Let_def sh by simp
  also have "\<dots> = (case fst (halve_edges [h ! a] 0 ?ks) of
           Some e \<Rightarrow> Inl e
         | None \<Rightarrow> solve_levels argsort (h ! a) (adjusted (h ! a) True) contours missing_norm,
         h @ [adjusted (h ! a) True])"
    unfolding loc using assms by (simp add: nth_append split: option.split)
  finally show ?thesis using True by simp
qed

lemma getContourLevels_eq:
  "getContourLevels argsort inbins contours missing_norm half_edge =
     (if half_edge \<and> 0 \<in> set (shape inbins) then Inl IndexError
      else solve_levels argsort inbins (adjusted inbins half_edge) contours missing_norm)"
proof -
  let ?ks = "[0..<length (shape inbins)]"
  have "0 < length [inbins]" by simp
  then have "getContourLevels_store argsort [inbins] 0 contours missing_norm half_edge =
     (if half_edge then
        (case fst (halve_edges [[inbins] ! 0] 0 [0..<length (shape ([inbins] ! 0))]) of
           Some e \<Rightarrow> Inl e
         | None \<Rightarrow> solve_levels argsort ([inbins] ! 0) (adjusted ([inbins] ! 0) True) contours missing_norm,
         [inbins] @ [adjusted ([inbins] ! 0) True])
      else (solve_levels argsort ([inbins] ! 0) ([inbins] ! 0) contours missing_norm, [inbins]))"
    by (rule getContourLevels_store_eq)
  then have eq: "getContourLevels argsort inbins contours missing_norm half_edge =
     (if half_edge then
        (case fst (halve_edges [inbins] 0 ?ks) of
           Some e \<Rightarrow> Inl e
         | None \<Rightarrow> solve_levels argsort inbins (adjusted inbins True) contours missing_norm)
      else solve_levels argsort inbins inbins contours missing_norm)"
    unfolding getContourLevels_def by (simp split: option.split)
  show ?thesis
  proof (cases half_edge)
    case False
    then show ?thesis unfolding eq by (simp add: adjusted_False)
  next
    case he: True
    show ?thesis
    proof (cases "0 \<in> set (shape inbins)")
      case True
      then have "\<exists>k \<in> set ?ks. shape inbins ! k = 0"
        by (auto simp: in_set_conv_nth)
      then have "fst (halve_edges [inbins] 0 ?ks) = Some IndexError"
        by (rule halve_edges_fails)
      then show ?thesis unfolding eq using he True by simp
    next
      case False
      then have "\<forall>k \<in> set ?ks. shape inbins ! k \<noteq> 0"
        by (auto simp: in_set_conv_nth)
      then have "fst (halve_edges [inbins] 0 ?ks) = None"
        by (rule halve_edges_ok)
      then show ?thesis unfolding eq using he False by simp
    qed
  qed
qed

subsection \<open>The solver leaves its input alone\<close>

text \<open>
  Claim C10. The solver never modifies its input array: whatever the arguments, and
  whether it returns or raises, the array at the address of \<open>inbins\<close> holds after the
  call what it held before. With \<open>half_edge\<close> the halving works on a copy at a new
  address; without, the array is only read.
\<close>

theorem getContourLevels_keeps_inbins:
  assumes "a < length h"
  shows "snd (getContourLevels_store argsort h a contours missing_norm half_edge) ! a = h ! a"
proof -
  have "snd (getContourLevels_store argsort h a contours missing_norm half_edge) =
      (if half_edge then h @ [adjusted (h ! a) True] else h)"
    using assms by (simp add: getContourLevels_store_eq)
  then show ?thesis using assms by (simp add: nth_append)
qed

theorem getContourLevels_keeps_inbins_witness:
  "(0::nat) < length [array1 [1, 2, 5, 2, 1]] \<and>
   snd (getContourLevels_store stable_argsort [array1 [1, 2, 5, 2, 1]] 0 [68 / 100] 0 True) ! 0
     = array1 [1, 2, 5, 2, 1] \<and>
   snd (getContourLevels_store stable_argsort [array1 [1, 2, 5, 2, 1]] 0 [68 / 100] 0 True) ! 1
     = array1 [1 / 2, 2, 5, 2, 1 / 2]"
proof -
  have h: "(0::nat) < length [array1 [1, 2, 5, 2, 1]]" by simp
  have "snd (getContourLevels_store stable_argsort [array1 [1, 2, 5, 2, 1]] 0 [68 / 100] 0 True) ! 0
     = [array1 [1, 2, 5, 2, 1]] ! 0"
    using h by (rule getContourLevels_keeps_inbins)
  moreover have "snd (getContourLevels_store stable_argsort [array1 [1, 2, 5, 2, 1]] 0 [68 / 100] 0 True) ! 1
     = array1 [1 / 2, 2, 5, 2, 1 / 2]"
    by code_simp
  ultimately show ?thesis by simp
qed

subsection \<open>The contour level solver\<close>


lemma stable_argsort_ok: "argsort_ok stable_argsort xs"
  by (simp add: argsort_ok_def stable_argsort_def)

lemma contour_levels_length:
  "contour_levels sg cs its = Inr ls \<Longrightarrow> length ls = length its"
proof (induction its arbitrary: ls)
  case Nil
  then show ?case by simp
next
  case (Cons p its)
  obtain ix t where p: "p = (ix, t)" by (cases p)
  from Cons.prems p obtain ls' where "contour_levels sg cs its = Inr ls'" "length ls = Suc (length ls')"
    by (auto simp: Let_def split: if_splits sum.splits)
  then show ?case using Cons.IH by simp
qed

lemma contour_levels_nth:
  "contour_levels sg cs its = Inr ls \<Longrightarrow> i < length its \<Longrightarrow> its ! i = (ix, t) \<Longrightarrow>
   0 < ix \<and> ix < length cs \<and>
   ls ! i = sg ! ix * (1 - (cs ! ix - t) / (cs ! ix - cs ! (ix - 1)))
            + (cs ! ix - t) / (cs ! ix - cs ! (ix - 1)) * sg ! (ix - 1)"
proof (induction its arbitrary: ls i)
  case Nil
  then show ?case by simp
next
  case (Cons p its)
  obtain ix0 t0 where p: "p = (ix0, t0)" by (cases p)
  from Cons.prems(1) p obtain ls' where
    ix: "ix0 \<noteq> 0" "ix0 < length cs" and
    rest: "contour_levels sg cs its = Inr ls'" and
    ls: "ls = (sg ! ix0 * (1 - (cs ! ix0 - t0) / (cs ! ix0 - cs ! (ix0 - 1)))
               + (cs ! ix0 - t0) / (cs ! ix0 - cs ! (ix0 - 1)) * sg ! (ix0 - 1)) # ls'"
    by (auto simp: Let_def split: if_splits sum.splits)
  show ?case
  proof (cases i)
    case 0
    then have "ix = ix0" "t = t0" using Cons.prems(3) p by simp_all
    then show ?thesis using 0 ix ls by simp
  next
    case (Suc k)
    then have "k < length its" "its ! k = (ix, t)" using Cons.prems by simp_all
    from Cons.IH [OF rest this] show ?thesis using Suc ls by simp
  qed
qed

lemma contour_levels_total:
  assumes "\<forall>p \<in> set its. fst p = 0 \<or> (fst p < length cs \<and> cs ! fst p \<noteq> cs ! (fst p - 1))"
  shows "(contour_levels sg cs its = Inl ContourOutOfRange \<longleftrightarrow> 0 \<in> fst ` set its) \<and>
         (0 \<notin> fst ` set its \<longrightarrow> (\<exists>ls. contour_levels sg cs its = Inr ls))"
  using assms
proof (induction its)
  case Nil
  then show ?case by simp
next
  case (Cons p its)
  obtain ix t where p: "p = (ix, t)" by (cases p)
  have ih: "(contour_levels sg cs its = Inl ContourOutOfRange \<longleftrightarrow> 0 \<in> fst ` set its) \<and>
         (0 \<notin> fst ` set its \<longrightarrow> (\<exists>ls. contour_levels sg cs its = Inr ls))"
    using Cons by simp
  show ?case
  proof (cases "ix = 0")
    case True
    then show ?thesis using p by simp
  next
    case False
    then have g: "ix < length cs" "cs ! ix \<noteq> cs ! (ix - 1)" using Cons.prems p by auto
    show ?thesis
    proof (cases "contour_levels sg cs its")
      case (Inl e)
      then have "contour_levels sg cs (p # its) = Inl e"
        using p False g by (simp add: Let_def)
      then show ?thesis using ih Inl False p by auto
    next
      case (Inr ls')
      then have "\<exists>ls. contour_levels sg cs (p # its) = Inr ls"
        using p False g by (simp add: Let_def)
      then show ?thesis using ih Inr False p by auto
    qed
  qed
qed

lemma sum_sortgrid:
  assumes "argsort_ok argsort (data inbins)" "length (data abins) = length (data inbins)"
  shows "sum_list (sortgrid_of argsort inbins abins) = sum_list (data abins)"
proof -
  have "sum_list (map ((!) (data abins)) (argsort (data inbins)))
      = sum_mset (image_mset ((!) (data abins)) (mset (argsort (data inbins))))"
    by (metis mset_map sum_mset_sum_list)
  also have "\<dots> = sum_mset (image_mset ((!) (data abins)) (mset [0..<length (data abins)]))"
    using assms by (simp add: argsort_ok_def)
  also have "\<dots> = sum_list (map ((!) (data abins)) [0..<length (data abins)])"
    by (metis mset_map sum_mset_sum_list)
  also have "\<dots> = sum_list (data abins)" by (simp add: map_nth)
  finally show ?thesis by (simp add: sortgrid_of_def)
qed

lemma length_sortgrid:
  assumes "argsort_ok argsort (data inbins)"
  shows "length (sortgrid_of argsort inbins abins) = length (data inbins)"
proof -
  have "size (mset (argsort (data inbins))) = size (mset [0..<length (data inbins)])"
    using assms by (simp add: argsort_ok_def)
  then show ?thesis by (simp add: sortgrid_of_def)
qed

lemma target_le_norm:
  assumes "\<forall>v \<in> set (data abins). 0 \<le> v" "\<forall>c \<in> set contours. 0 \<le> c" "0 \<le> missing_norm"
    "t \<in> set (targets_of abins contours missing_norm)"
  shows "t \<le> sum_list (data abins)"
proof -
  from assms(4) obtain c where c: "c \<in> set contours"
    and t: "t = (1 - c) * sum_list (data abins) - missing_norm"
    by (auto simp: targets_of_def)
  have n: "0 \<le> sum_list (data abins)" using assms(1) by (simp add: sum_list_nonneg)
  have "0 \<le> c" using c assms(2) by simp
  then have "0 \<le> c * sum_list (data abins)" using n by simp
  then have "(1 - c) * sum_list (data abins) \<le> sum_list (data abins)"
    by (simp add: algebra_simps)
  then show ?thesis using t assms(3) by simp
qed

lemma searchsorted_bracket:
  assumes "0 < searchsorted cs t" "searchsorted cs t < length cs"
  shows "cs ! (searchsorted cs t - 1) < t" "t \<le> cs ! searchsorted cs t"
proof -
  have "searchsorted cs t - 1 < searchsorted cs t" using assms(1) by simp
  then show "cs ! (searchsorted cs t - 1) < t" by (rule searchsorted_before)
  show "t \<le> cs ! searchsorted cs t" using assms(2) by (rule searchsorted_nth)
qed

lemma zip_ixs_member:
  assumes "p \<in> set (zip (map (searchsorted cs) ts) ts)"
  shows "fst p = searchsorted cs (snd p) \<and> snd p \<in> set ts"
proof -
  from assms obtain i where i: "i < length ts" "p = (map (searchsorted cs) ts ! i, ts ! i)"
    by (auto simp: in_set_zip)
  then show ?thesis by simp
qed

lemma fst_zip_ixs: "fst ` set (zip (map f ts) ts) = set (map f ts)"
proof -
  have "map fst (zip (map f ts) ts) = map f ts" by simp
  then show ?thesis by (metis set_map)
qed

lemma ixs_good:
  assumes ok: "argsort_ok argsort (data inbins)"
    and len: "length (data abins) = length (data inbins)"
    and w: "\<forall>v \<in> set (data abins). 0 \<le> v"
    and c: "\<forall>c \<in> set contours. 0 \<le> c"
    and m: "0 \<le> missing_norm"
    and p: "p \<in> set (zip (ixs_of argsort inbins abins contours missing_norm)
                         (targets_of abins contours missing_norm))"
  shows "fst p = 0 \<or>
    (fst p < length (cumsum_of argsort inbins abins) \<and>
     cumsum_of argsort inbins abins ! fst p \<noteq> cumsum_of argsort inbins abins ! (fst p - 1))"
proof (cases "fst p = 0")
  case True
  then show ?thesis by simp
next
  case False
  let ?cs = "cumsum_of argsort inbins abins"
  let ?sg = "sortgrid_of argsort inbins abins"
  from p have ix: "fst p = searchsorted ?cs (snd p)"
    and t: "snd p \<in> set (targets_of abins contours missing_norm)"
    using zip_ixs_member [of p ?cs "targets_of abins contours missing_norm"]
    by (simp_all add: ixs_of_def)
  have ne: "?cs \<noteq> []"
  proof
    assume "?cs = []"
    then have "searchsorted ?cs (snd p) = 0" by (simp add: searchsorted_def)
    then show False using False ix by simp
  qed
  then have sgne: "?sg \<noteq> []"
    using length_cumsum [of ?sg] by (auto simp: cumsum_of_def)
  have "last ?cs = sum_list ?sg" unfolding cumsum_of_def using sgne by (rule cumsum_last)
  also have "\<dots> = sum_list (data abins)" using ok len by (rule sum_sortgrid)
  finally have "snd p \<le> last ?cs"
    using target_le_norm [OF w c m t] by simp
  with ne have lt: "searchsorted ?cs (snd p) < length ?cs" by (rule searchsorted_lt_length)
  moreover have "0 < searchsorted ?cs (snd p)" using False ix by simp
  then have "?cs ! (searchsorted ?cs (snd p) - 1) < snd p" "snd p \<le> ?cs ! searchsorted ?cs (snd p)"
    using lt by (rule searchsorted_bracket)+
  ultimately show ?thesis using ix by simp
qed

text \<open>
  Claim C5. On a grid of non-negative weights with at least one bin along every axis,
  for contour fractions that are not negative and a missing mass that is not negative,
  the solver fails with \<open>ContourOutOfRange\<close> exactly when the insertion index of some
  target in the cumulative sum is 0, and it returns the levels otherwise. On the five
  bins \<open>[1,2,5,2,1]\<close> with \<open>contours = [0.999999]\<close>, \<open>half_edge\<close> and no missing mass it
  raises \<open>ContourOutOfRange\<close>.
\<close>

theorem getContourLevels_out_of_range_iff:
  assumes ok: "argsort_ok argsort (data inbins)"
    and w: "\<forall>v \<in> set (data inbins). 0 \<le> v"
    and c: "\<forall>c \<in> set contours. 0 \<le> c"
    and m: "0 \<le> missing_norm"
    and ax: "0 \<notin> set (shape inbins)"
  shows "(getContourLevels argsort inbins contours missing_norm half_edge = Inl ContourOutOfRange
            \<longleftrightarrow> 0 \<in> set (ixs_of argsort inbins (adjusted inbins half_edge) contours missing_norm))
       \<and> (0 \<notin> set (ixs_of argsort inbins (adjusted inbins half_edge) contours missing_norm)
            \<longrightarrow> (\<exists>levels. getContourLevels argsort inbins contours missing_norm half_edge
                            = Inr levels))"
proof -
  let ?ab = "adjusted inbins half_edge"
  let ?its = "zip (ixs_of argsort inbins ?ab contours missing_norm)
                  (targets_of ?ab contours missing_norm)"
  have eq: "getContourLevels argsort inbins contours missing_norm half_edge =
      contour_levels (sortgrid_of argsort inbins ?ab) (cumsum_of argsort inbins ?ab) ?its"
    using ax by (simp add: getContourLevels_eq solve_levels_def)
  have len: "length (data ?ab) = length (data inbins)" by (rule length_data_adjusted)
  have w': "\<forall>v \<in> set (data ?ab). 0 \<le> v" using w by (rule nonneg_adjusted)
  have good: "\<forall>p \<in> set ?its. fst p = 0 \<or>
    (fst p < length (cumsum_of argsort inbins ?ab) \<and>
     cumsum_of argsort inbins ?ab ! fst p \<noteq> cumsum_of argsort inbins ?ab ! (fst p - 1))"
    using ixs_good [OF ok len w' c m] by blast
  have fst: "fst ` set ?its = set (ixs_of argsort inbins ?ab contours missing_norm)"
    unfolding ixs_of_def by (rule fst_zip_ixs)
  from contour_levels_total [OF good, of "sortgrid_of argsort inbins ?ab"]
  show ?thesis unfolding eq fst .
qed

theorem getContourLevels_out_of_range_iff_witness:
  "ixs_of stable_argsort (array1 [1, 2, 5, 2, 1]) (adjusted (array1 [1, 2, 5, 2, 1]) True)
      [999999 / 1000000] 0 = [0] \<and>
   getContourLevels stable_argsort (array1 [1, 2, 5, 2, 1]) [999999 / 1000000] 0 True
     = Inl ContourOutOfRange"
proof -
  have ok: "argsort_ok stable_argsort (data (array1 [1, 2, 5, 2, 1]))"
    by (rule stable_argsort_ok)
  have w: "\<forall>v \<in> set (data (array1 [1, 2, 5, 2, 1])). 0 \<le> v"
    by (simp add: array1_def)
  have c: "\<forall>c \<in> set [999999 / 1000000 :: real]. 0 \<le> c" by simp
  have m: "(0::real) \<le> 0" by simp
  have ax: "0 \<notin> set (shape (array1 [1, 2, 5, 2, 1]))" by (simp add: array1_def)
  have ixs: "ixs_of stable_argsort (array1 [1, 2, 5, 2, 1]) (adjusted (array1 [1, 2, 5, 2, 1]) True)
      [999999 / 1000000] 0 = [0]"
    by code_simp
  from getContourLevels_out_of_range_iff [OF ok w c m ax, of True]
  have "getContourLevels stable_argsort (array1 [1, 2, 5, 2, 1]) [999999 / 1000000] 0 True
     = Inl ContourOutOfRange"
    unfolding ixs by simp
  with ixs show ?thesis by blast
qed

lemma sortgrid_sorted_no_half_edge:
  "argsort_ok argsort (data inbins) \<Longrightarrow> sorted (sortgrid_of argsort inbins (adjusted inbins False))"
  by (simp add: argsort_ok_def sortgrid_of_def adjusted_False)

lemma level_between:
  fixes lo hi t a b :: real
  assumes "lo \<le> hi" "a < t" "t \<le> b"
  shows "lo \<le> hi * (1 - (b - t) / (b - a)) + (b - t) / (b - a) * lo"
    and "hi * (1 - (b - t) / (b - a)) + (b - t) / (b - a) * lo \<le> hi"
proof -
  define d where "d = (b - t) / (b - a)"
  have ba: "0 < b - a" using assms by simp
  have d0: "0 \<le> d" unfolding d_def using assms ba by simp
  have d1: "d \<le> 1" unfolding d_def using assms ba by simp
  have e: "hi * (1 - d) + d * lo = lo + (1 - d) * (hi - lo)" by (simp add: algebra_simps)
  have e2: "hi * (1 - d) + d * lo = hi - d * (hi - lo)" by (simp add: algebra_simps)
  have "0 \<le> (1 - d) * (hi - lo)" using d1 assms(1) by simp
  then show "lo \<le> hi * (1 - (b - t) / (b - a)) + (b - t) / (b - a) * lo"
    using e unfolding d_def by simp
  have "0 \<le> d * (hi - lo)" using d0 assms(1) by simp
  then show "hi * (1 - (b - t) / (b - a)) + (b - t) / (b - a) * lo \<le> hi"
    using e2 unfolding d_def by simp
qed

lemma level_mono:
  fixes lo hi t u a b :: real
  assumes "lo \<le> hi" "a < u" "u \<le> t" "t \<le> b"
  shows "hi * (1 - (b - u) / (b - a)) + (b - u) / (b - a) * lo
       \<le> hi * (1 - (b - t) / (b - a)) + (b - t) / (b - a) * lo"
proof -
  define dt where "dt = (b - t) / (b - a)"
  define du where "du = (b - u) / (b - a)"
  have ba: "0 < b - a" using assms by simp
  have "dt \<le> du"
    unfolding dt_def du_def using assms ba by (simp add: divide_right_mono)
  moreover have "0 \<le> hi - lo" using assms(1) by simp
  ultimately have "dt * (hi - lo) \<le> du * (hi - lo)"
    by (rule mult_right_mono)
  then have "hi * (1 - du) + du * lo \<le> hi * (1 - dt) + dt * lo"
    by (simp add: algebra_simps)
  then show ?thesis unfolding dt_def du_def .
qed

text \<open>
  Claim C4, as amended. For every non-negative weight array whose adjusted weights,
  taken in the ascending order of the original weights, are themselves ascending (as
  they always are without \<open>half_edge\<close>), and for every two requested fractions
  \<open>c1 < c2\<close> of a call that does not raise, the level returned for \<open>c1\<close> is at least
  the level returned for \<open>c2\<close>.
\<close>

theorem getContourLevels_monotone:
  assumes ok: "argsort_ok argsort (data inbins)"
    and w: "\<forall>v \<in> set (data inbins). 0 \<le> v"
    and srt: "half_edge \<longrightarrow> sorted (sortgrid_of argsort inbins (adjusted inbins True))"
    and res: "getContourLevels argsort inbins contours missing_norm half_edge = Inr levels"
    and i: "i < length contours" and j: "j < length contours"
    and lt: "contours ! i < contours ! j"
  shows "levels ! j \<le> levels ! i"
proof -
  let ?ab = "adjusted inbins half_edge"
  let ?sg = "sortgrid_of argsort inbins ?ab"
  let ?cs = "cumsum_of argsort inbins ?ab"
  let ?ts = "targets_of ?ab contours missing_norm"
  let ?ixs = "ixs_of argsort inbins ?ab contours missing_norm"
  let ?its = "zip ?ixs ?ts"
  define ti where "ti = ?ts ! i"
  define tj where "tj = ?ts ! j"
  define xi where "xi = searchsorted ?cs ti"
  define xj where "xj = searchsorted ?cs tj"
  have eq: "contour_levels ?sg ?cs ?its = Inr levels"
    using res by (simp add: getContourLevels_eq solve_levels_def split: if_splits)
  have sorted_sg: "sorted ?sg"
  proof (cases half_edge)
    case True
    then show ?thesis using srt by simp
  next
    case False
    then show ?thesis using sortgrid_sorted_no_half_edge [OF ok] by simp
  qed
  have lts: "length ?ts = length contours" by (simp add: targets_of_def)
  have lits: "length ?its = length contours" by (simp add: ixs_of_def lts)
  have iti: "?its ! i = (xi, ti)"
    using i lts by (simp add: ixs_of_def xi_def ti_def)
  have itj: "?its ! j = (xj, tj)"
    using j lts by (simp add: ixs_of_def xj_def tj_def)
  have ii: "i < length ?its" and jj: "j < length ?its" using i j lits by simp_all
  from contour_levels_nth [OF eq ii iti]
  have xi: "0 < xi" "xi < length ?cs"
    and li: "levels ! i = ?sg ! xi * (1 - (?cs ! xi - ti) / (?cs ! xi - ?cs ! (xi - 1)))
            + (?cs ! xi - ti) / (?cs ! xi - ?cs ! (xi - 1)) * ?sg ! (xi - 1)"
    by blast+
  from contour_levels_nth [OF eq jj itj]
  have xj: "0 < xj" "xj < length ?cs"
    and lj: "levels ! j = ?sg ! xj * (1 - (?cs ! xj - tj) / (?cs ! xj - ?cs ! (xj - 1)))
            + (?cs ! xj - tj) / (?cs ! xj - ?cs ! (xj - 1)) * ?sg ! (xj - 1)"
    by blast+
  have "\<forall>v \<in> set (data ?ab). 0 \<le> v" using w by (rule nonneg_adjusted)
  then have norm: "0 \<le> sum_list (data ?ab)" by (simp add: sum_list_nonneg)
  have "ti = (1 - contours ! i) * sum_list (data ?ab) - missing_norm"
    and "tj = (1 - contours ! j) * sum_list (data ?ab) - missing_norm"
    using i j by (simp_all add: ti_def tj_def targets_of_def)
  moreover have "(1 - contours ! j) * sum_list (data ?ab) \<le> (1 - contours ! i) * sum_list (data ?ab)"
    using lt norm by (intro mult_right_mono) simp_all
  ultimately have tji: "tj \<le> ti" by simp
  have bi: "?cs ! (xi - 1) < ti" "ti \<le> ?cs ! xi"
    using xi unfolding xi_def by (rule searchsorted_bracket)+
  have bj: "?cs ! (xj - 1) < tj" "tj \<le> ?cs ! xj"
    using xj unfolding xj_def by (rule searchsorted_bracket)+
  have xji: "xj \<le> xi" unfolding xi_def xj_def using tji by (rule searchsorted_mono)
  have lsg: "length ?sg = length ?cs" by (simp add: cumsum_of_def length_cumsum)
  have si: "?sg ! (xi - 1) \<le> ?sg ! xi"
    using sorted_sg xi lsg by (intro sorted_nth_mono) simp_all
  have sj: "?sg ! (xj - 1) \<le> ?sg ! xj"
    using sorted_sg xj lsg by (intro sorted_nth_mono) simp_all
  show ?thesis
  proof (cases "xj = xi")
    case True
    have "?sg ! xi * (1 - (?cs ! xi - tj) / (?cs ! xi - ?cs ! (xi - 1)))
            + (?cs ! xi - tj) / (?cs ! xi - ?cs ! (xi - 1)) * ?sg ! (xi - 1)
       \<le> ?sg ! xi * (1 - (?cs ! xi - ti) / (?cs ! xi - ?cs ! (xi - 1)))
            + (?cs ! xi - ti) / (?cs ! xi - ?cs ! (xi - 1)) * ?sg ! (xi - 1)"
      using si bj(1) tji bi(2) unfolding True by (rule level_mono)
    then show ?thesis unfolding li lj True .
  next
    case False
    then have "xj \<le> xi - 1" using xji by simp
    then have mid: "?sg ! xj \<le> ?sg ! (xi - 1)"
      using sorted_sg xi lsg by (intro sorted_nth_mono) simp_all
    have "levels ! j \<le> ?sg ! xj"
      unfolding lj using sj bj by (rule level_between(2))
    moreover have "?sg ! (xi - 1) \<le> levels ! i"
      unfolding li using si bi by (rule level_between(1))
    ultimately show ?thesis using mid by simp
  qed
qed

theorem getContourLevels_monotone_witness:
  "sorted (sortgrid_of stable_argsort (array1 [1, 2, 5, 2, 1])
             (adjusted (array1 [1, 2, 5, 2, 1]) True)) \<and>
   getContourLevels stable_argsort (array1 [1, 2, 5, 2, 1]) [1 / 2, 4 / 5] 0 True
     = Inr [2, 5 / 4] \<and>
   [1 / 2, 4 / 5 :: real] ! 0 < [1 / 2, 4 / 5] ! 1 \<and>
   [2, 5 / 4 :: real] ! 1 \<le> [2, 5 / 4] ! 0"
proof -
  have ok: "argsort_ok stable_argsort (data (array1 [1, 2, 5, 2, 1]))"
    by (rule stable_argsort_ok)
  have w: "\<forall>v \<in> set (data (array1 [1, 2, 5, 2, 1])). 0 \<le> v"
    by (simp add: array1_def)
  have s: "sorted (sortgrid_of stable_argsort (array1 [1, 2, 5, 2, 1])
                         (adjusted (array1 [1, 2, 5, 2, 1]) True))"
    by code_simp
  then have srt: "True \<longrightarrow> sorted (sortgrid_of stable_argsort (array1 [1, 2, 5, 2, 1])
                         (adjusted (array1 [1, 2, 5, 2, 1]) True))"
    by simp
  have res: "getContourLevels stable_argsort (array1 [1, 2, 5, 2, 1]) [1 / 2, 4 / 5] 0 True
     = Inr [2, 5 / 4]"
    by code_simp
  have i: "(0::nat) < length [1 / 2, 4 / 5 :: real]" by simp
  have j: "(1::nat) < length [1 / 2, 4 / 5 :: real]" by simp
  have lt: "[1 / 2, 4 / 5 :: real] ! 0 < [1 / 2, 4 / 5] ! 1" by simp
  from getContourLevels_monotone [OF ok w srt res i j lt]
  have "[2, 5 / 4 :: real] ! 1 \<le> [2, 5 / 4] ! 0" .
  with s res lt show ?thesis by blast
qed

theorem getContourLevels_monotone_counterexample:
  "(1 / 10 :: real) < 1 / 5 \<and>
   getContourLevels stable_argsort (array1 [1, 2, 3, 4]) [1 / 10, 1 / 5] 0 True
     = Inr [19 / 8, 11 / 4] \<and>
   \<not> ([19 / 8, 11 / 4 :: real] ! 1 \<le> [19 / 8, 11 / 4] ! 0)"
proof -
  have "getContourLevels stable_argsort (array1 [1, 2, 3, 4]) [1 / 10, 1 / 5] 0 True = Inr [19 / 8, 11 / 4]"
    by code_simp
  then show ?thesis by (simp add: array1_def)
qed

subsection \<open>Density grids: construction, integrals and bounds\<close>

lemma setP_Some:
  "sizes_match (shape p) (axes d) \<Longrightarrow> setP d (Some p) = Inr (d\<lparr>self_P := p, spl := None\<rparr>)"
  by (simp add: setP_def)

lemma Density2D_init_Inr:
  assumes "Density2D_init x y P vr = Inr d"
  shows "axes d = [y, x]" "view_ranges d = vr" "d2_x d = x" "d2_y d = y"
    "d2_spacing d = (x ! 1 - x ! 0) * (y ! 1 - y ! 0)" "2 \<le> length x" "2 \<le> length y"
    "\<And>p. P = Some p \<Longrightarrow> self_P d = p"
  using assms
  by (auto simp: Density2D_init_def setP_def split: if_splits option.splits)

lemma Density1D_init_Inr:
  assumes "Density1D_init x P vr = Inr d"
  shows "axes d = [x]" "view_ranges d = vr" "d1_x d = x" "d1_n d = length x"
    "d1_spacing d = x ! 1 - x ! 0" "2 \<le> length x" "spl d = None"
    "\<And>p. P = Some p \<Longrightarrow> self_P d = p \<and> sizes_match (shape p) [x]"
    "P = None \<Longrightarrow> self_P d = zeros [length x]"
  using assms
  by (auto simp: Density1D_init_def setP_def split: if_splits option.splits)

lemma ones55_integrate:
  "Density2D_integrate d \<lparr>shape = [5, 5], data = replicate 25 1\<rparr> = Inr (16 * d2_spacing d)"
proof -
  have u: "[Suc 0..<4] = [1, 2, 3]" by (simp add: upt_rec)
  show ?thesis
    by (simp add: Density2D_integrate_def Let_def at2_def u)
qed

text \<open>
  Claim C7. A \<open>Density2D\<close> over a 5 by 5 grid of weights that are all one, with
  \<open>dx = dy = 0.2\<close>, has \<open>norm_integral() = 16 * 0.04 = 0.64\<close>: four corners at a quarter,
  twelve other boundary cells at a half and nine interior cells at one make 16, times
  the cell area.
\<close>

theorem Density2D_norm_integral_ones:
  assumes "Density2D_init x y (Some \<lparr>shape = [5, 5], data = replicate 25 1\<rparr>) vr = Inr d"
    and "x ! 1 - x ! 0 = 1 / 5" and "y ! 1 - y ! 0 = 1 / 5"
  shows "d2_spacing d = 4 / 100 \<and>
         Density2D_norm_integral d = Inr ((4 * (1 / 4) + 12 * (1 / 2) + 9 * 1) * d2_spacing d) \<and>
         Density2D_norm_integral d = Inr (64 / 100)"
proof -
  have P: "self_P d = \<lparr>shape = [5, 5], data = replicate 25 1\<rparr>"
    using Density2D_init_Inr(8) [OF assms(1)] by simp
  have "d2_spacing d = (x ! 1 - x ! 0) * (y ! 1 - y ! 0)"
    using assms(1) by (rule Density2D_init_Inr(5))
  also have "\<dots> = (1 / 5) * (1 / 5)" by (simp only: assms(2,3))
  finally have s: "d2_spacing d = 1 / 25" by simp
  have "Density2D_norm_integral d = Inr (16 * d2_spacing d)"
    unfolding Density2D_norm_integral_def P by (rule ones55_integrate)
  then show ?thesis using s by simp
qed

theorem Density2D_norm_integral_ones_witness:
  "Density2D_init [0, 1 / 5, 2 / 5, 3 / 5, 4 / 5] [0, 1 / 5, 2 / 5, 3 / 5, 4 / 5]
     (Some \<lparr>shape = [5, 5], data = replicate 25 1\<rparr>) (None :: unit option)
   = Inr \<lparr>axes = [[0, 1 / 5, 2 / 5, 3 / 5, 4 / 5], [0, 1 / 5, 2 / 5, 3 / 5, 4 / 5]],
          view_ranges = None,
          self_P = \<lparr>shape = [5, 5], data = replicate 25 1\<rparr>, spl = None,
          d2_x = [0, 1 / 5, 2 / 5, 3 / 5, 4 / 5], d2_y = [0, 1 / 5, 2 / 5, 3 / 5, 4 / 5],
          d2_spacing = 1 / 25\<rparr> \<and>
   Density2D_norm_integral
     \<lparr>axes = [[0, 1 / 5, 2 / 5, 3 / 5, 4 / 5], [0, 1 / 5, 2 / 5, 3 / 5, 4 / 5]],
      view_ranges = None :: unit option,
      self_P = \<lparr>shape = [5, 5], data = replicate 25 1\<rparr>, spl = None,
      d2_x = [0, 1 / 5, 2 / 5, 3 / 5, 4 / 5], d2_y = [0, 1 / 5, 2 / 5, 3 / 5, 4 / 5],
      d2_spacing = 1 / 25\<rparr> = Inr (64 / 100)"
proof -
  let ?x = "[0, 1 / 5, 2 / 5, 3 / 5, 4 / 5] :: real list"
  let ?d = "\<lparr>axes = [?x, ?x], view_ranges = None :: unit option,
      self_P = \<lparr>shape = [5, 5], data = replicate 25 1\<rparr>, spl = None,
      d2_x = ?x, d2_y = ?x, d2_spacing = 1 / 25\<rparr>"
  have i: "Density2D_init ?x ?x (Some \<lparr>shape = [5, 5], data = replicate 25 1\<rparr>) None = Inr ?d"
    by (simp add: Density2D_init_def setP_def)
  have a: "?x ! 1 - ?x ! 0 = 1 / 5" by simp
  from Density2D_norm_integral_ones [OF i a a] have "Density2D_norm_integral ?d = Inr (64 / 100)"
    by simp
  with i show ?thesis by (rule conjI)
qed

text \<open>
  Claim C3, as amended. With no view-range override, \<open>bounds()\<close> returns the
  \<open>(min, max)\<close> pairs of the axes in the reverse of the order of \<open>axes\<close>, last axis
  first: for a \<open>Density2D\<close>, whose axes are \<open>[y, x]\<close>, the pair of \<open>x\<close> and then the pair
  of \<open>y\<close>; a \<open>Density1D\<close> returns the one pair \<open>(x[0], x[-1])\<close> itself. With an override,
  \<open>bounds()\<close> returns the override as it is.
\<close>

theorem bounds_order:
  assumes "Density2D_init x y P vr = Inr d"
    and "Density1D_init x1 P1 vr1 = Inr d1"
  shows "bounds d = (case vr of
                       Some v \<Rightarrow> Inr (ViewRanges v)
                     | None \<Rightarrow> Inr (AxisBounds [(x ! 0, last x), (y ! 0, last y)]))
       \<and> bounds d = (case vr of
                       Some v \<Rightarrow> Inr (ViewRanges v)
                     | None \<Rightarrow> Inr (AxisBounds (rev (map (\<lambda>ax. (ax ! 0, last ax)) (axes d)))))
       \<and> Density1D_bounds d1 = (case vr1 of
                       Some v \<Rightarrow> Inr (ViewRanges v)
                     | None \<Rightarrow> Inr (AxisPair (x1 ! 0, last x1)))"
proof -
  note i2 = Density2D_init_Inr [OF assms(1)]
  note i1 = Density1D_init_Inr [OF assms(2)]
  have ne: "x \<noteq> []" "y \<noteq> []" "x1 \<noteq> []" using i2(6,7) i1(6) by auto
  have "bounds d = (case vr of
                       Some v \<Rightarrow> Inr (ViewRanges v)
                     | None \<Rightarrow> Inr (AxisBounds (rev (map (\<lambda>ax. (ax ! 0, last ax)) (axes d)))))"
    using ne by (simp add: bounds_def i2(1,2) split: option.split)
  moreover have "rev (map (\<lambda>ax. (ax ! 0, last ax)) (axes d)) = [(x ! 0, last x), (y ! 0, last y)]"
    by (simp add: i2(1))
  moreover have "Density1D_bounds d1 = (case vr1 of
                       Some v \<Rightarrow> Inr (ViewRanges v)
                     | None \<Rightarrow> Inr (AxisPair (x1 ! 0, last x1)))"
    using ne by (simp add: Density1D_bounds_def i1(2,3) split: option.split)
  ultimately show ?thesis by (simp split: option.split)
qed

theorem bounds_order_witness:
  "bounds \<lparr>axes = [[10, 11, 12], [0, 1]], view_ranges = None :: unit option,
           self_P = zeros [3, 2], spl = None,
           d2_x = [0, 1], d2_y = [10, 11, 12], d2_spacing = 1\<rparr>
     = Inr (AxisBounds [(0, 1), (10, 12)]) \<and>
   Density1D_bounds \<lparr>axes = [[0, 1, 2]], view_ranges = Some (5 :: nat),
           self_P = zeros [3], spl = None,
           d1_n = 3, d1_x = [0, 1, 2], d1_spacing = 1\<rparr>
     = Inr (ViewRanges 5)"
proof -
  let ?d = "\<lparr>axes = [[10, 11, 12], [0, 1]], view_ranges = None :: unit option,
           self_P = zeros [3, 2], spl = None,
           d2_x = [0, 1], d2_y = [10, 11, 12], d2_spacing = 1\<rparr>"
  let ?d1 = "\<lparr>axes = [[0, 1, 2]], view_ranges = Some (5 :: nat),
           self_P = zeros [3], spl = None,
           d1_n = 3, d1_x = [0, 1, 2], d1_spacing = 1\<rparr>"
  have i2: "Density2D_init [0, 1] [10, 11, 12] None None = Inr ?d"
    by (simp add: Density2D_init_def setP_def numeral_2_eq_2 numeral_3_eq_3)
  have i1: "Density1D_init [0, 1, 2] None (Some 5) = Inr ?d1"
    by (simp add: Density1D_init_def setP_def numeral_3_eq_3)
  from bounds_order [OF i2 i1] show ?thesis by simp
qed

theorem bounds_order_counterexample:
  "Density2D_init [0, 1] [10, 11, 12] None (None :: unit option)
     = Inr \<lparr>axes = [[10, 11, 12], [0, 1]], view_ranges = None,
            self_P = zeros [3, 2], spl = None,
            d2_x = [0, 1], d2_y = [10, 11, 12], d2_spacing = 1\<rparr> \<and>
   bounds \<lparr>axes = [[10, 11, 12], [0, 1]], view_ranges = None :: unit option,
           self_P = zeros [3, 2], spl = None,
           d2_x = [0, 1], d2_y = [10, 11, 12], d2_spacing = 1\<rparr>
     = Inr (AxisBounds [(0, 1), (10, 12)]) \<and>
   bounds \<lparr>axes = [[10, 11, 12], [0, 1]], view_ranges = None :: unit option,
           self_P = zeros [3, 2], spl = None,
           d2_x = [0, 1], d2_y = [10, 11, 12], d2_spacing = 1\<rparr>
     \<noteq> Inr (AxisBounds [(10, 12), (0, 1)])"
  by (simp add: Density2D_init_def setP_def bounds_def numeral_2_eq_2 numeral_3_eq_3)

lemma sum_list_divide: "sum_list (map (\<lambda>v. v / c) (ys :: real list)) = sum_list ys / c"
  by (induction ys) (simp_all add: add_divide_distrib)

lemma Density1D_integrate_divide:
  assumes "Density1D_integrate d P = Inr I"
  shows "Density1D_integrate (d\<lparr>self_P := Q, spl := s\<rparr>) (divide_by P c) = Inr (I / c)"
proof -
  from assms have ne: "data P \<noteq> []"
    and I: "I = ((data P ! 0 + last (data P)) / 2 + sum_list (butlast (tl (data P)))) * d1_spacing d"
    by (auto simp: Density1D_integrate_def split: if_splits)
  have m: "butlast (tl (map (\<lambda>v. v / c) (data P))) = map (\<lambda>v. v / c) (butlast (tl (data P)))"
    by (simp add: map_butlast map_tl)
  have "data (divide_by P c) = map (\<lambda>v. v / c) (data P)" by (simp add: divide_by_def)
  then have "Density1D_integrate (d\<lparr>self_P := Q, spl := s\<rparr>) (divide_by P c) =
      Inr (((data P ! 0 / c + last (data P) / c) / 2 + sum_list (butlast (tl (data P))) / c)
           * d1_spacing d)"
    using ne by (simp add: Density1D_integrate_def m sum_list_divide last_map)
  also have "((data P ! 0 / c + last (data P) / c) / 2 + sum_list (butlast (tl (data P))) / c)
           * d1_spacing d = I / c"
    unfolding I by (simp add: add_divide_distrib algebra_simps)
  finally show ?thesis .
qed

text \<open>
  Claim C6, as amended. For any 1D density grid whose trapezoidal integral is not
  zero, \<open>normalize(by='integral')\<close> followed by \<open>norm_integral()\<close> yields 1 (in exact
  arithmetic), in place or not.
\<close>

theorem normalize_integral_is_one:
  assumes "Density1D_init x (Some (array1 ps)) vr = Inr d"
    and "Density1D_norm_integral d = Inr I" and "I \<noteq> 0"
  shows "Density1D_normalize_norm_integral d ''integral'' in_place = Inr 1"
proof -
  note i = Density1D_init_Inr [OF assms(1)]
  have P: "self_P d = array1 ps" and sm: "sizes_match (shape (array1 ps)) [x]"
    using i(8) by simp_all
  have sm': "sizes_match (shape (divide_by (self_P d) I)) (axes d)"
    using sm by (simp add: P i(1) divide_by_def)
  have int: "Density1D_integrate d (self_P d) = Inr I"
    using assms(2) by (simp add: Density1D_norm_integral_def)
  let ?d' = "d\<lparr>self_P := divide_by (self_P d) I, spl := None\<rparr>"
  have n: "normalize Density1D_norm_integral d ''integral'' in_place = Inr ?d'"
    using assms(2,3) sm' by (simp add: normalize_def setP_def)
  have "Density1D_norm_integral ?d' = Inr (I / I)"
    unfolding Density1D_norm_integral_def using Density1D_integrate_divide [OF int] by simp
  then show ?thesis
    using assms(3) by (simp add: Density1D_normalize_norm_integral_def n)
qed

theorem normalize_integral_is_one_witness:
  "Density1D_init [0, 1, 2] (Some (array1 [1, 2, 3])) (None :: unit option)
     = Inr \<lparr>axes = [[0, 1, 2]], view_ranges = None, self_P = array1 [1, 2, 3], spl = None,
            d1_n = 3, d1_x = [0, 1, 2], d1_spacing = 1\<rparr> \<and>
   Density1D_norm_integral
       \<lparr>axes = [[0, 1, 2]], view_ranges = None :: unit option, self_P = array1 [1, 2, 3],
        spl = None, d1_n = 3, d1_x = [0, 1, 2], d1_spacing = 1\<rparr> = Inr 4 \<and>
   Density1D_normalize_norm_integral
       \<lparr>axes = [[0, 1, 2]], view_ranges = None :: unit option, self_P = array1 [1, 2, 3],
        spl = None, d1_n = 3, d1_x = [0, 1, 2], d1_spacing = 1\<rparr> ''integral'' False = Inr 1"
proof -
  let ?d = "\<lparr>axes = [[0, 1, 2]], view_ranges = None :: unit option, self_P = array1 [1, 2, 3],
        spl = None, d1_n = 3, d1_x = [0, 1, 2], d1_spacing = 1\<rparr>"
  have i: "Density1D_init [0, 1, 2] (Some (array1 [1, 2, 3])) None = Inr ?d"
    by (simp add: Density1D_init_def setP_def array1_def)
  have n: "Density1D_norm_integral ?d = Inr 4"
    by (simp add: Density1D_norm_integral_def Density1D_integrate_def array1_def)
  have z: "(4::real) \<noteq> 0" by simp
  from normalize_integral_is_one [OF i n z, of False] i n show ?thesis by simp
qed

theorem normalize_integral_is_one_counterexample:
  "Density1D_init [0, 1, 2] None (None :: unit option)
     = Inr \<lparr>axes = [[0, 1, 2]], view_ranges = None, self_P = \<lparr>shape = [3], data = [0, 0, 0]\<rparr>,
            spl = None, d1_n = 3, d1_x = [0, 1, 2], d1_spacing = 1\<rparr> \<and>
   Density1D_normalize_norm_integral
       \<lparr>axes = [[0, 1, 2]], view_ranges = None :: unit option,
        self_P = \<lparr>shape = [3], data = [0, 0, 0]\<rparr>,
        spl = None, d1_n = 3, d1_x = [0, 1, 2], d1_spacing = 1\<rparr> ''integral'' False
     = Inl NonFinite \<and>
   Density1D_normalize_norm_integral
       \<lparr>axes = [[0, 1, 2]], view_ranges = None :: unit option,
        self_P = \<lparr>shape = [3], data = [0, 0, 0]\<rparr>,
        spl = None, d1_n = 3, d1_x = [0, 1, 2], d1_spacing = 1\<rparr> ''integral'' False
     \<noteq> Inr 1"
  by (simp add: Density1D_init_def setP_def zeros_def Density1D_normalize_norm_integral_def
      normalize_def Density1D_norm_integral_def Density1D_integrate_def numeral_3_eq_3)

subsection \<open>Credible intervals of a 1D density\<close>

lemma ensure_spline_Inr:
  assumes "ensure_spline fit d = Inr (s, d')"
  shows "d1_x d' = d1_x d" "d1_spacing d' = d1_spacing d" "d1_n d' = d1_n d"
    "self_P d' = self_P d"
  using assms
  by (auto simp: ensure_spline_def initSpline_def split: option.splits sum.splits)

lemma initLimitGrids_Inr:
  assumes "initLimitGrids fit d factor = Inr (g, d')"
  shows "d1_x d' = d1_x d" "d1_spacing d' = d1_spacing d" "d1_x d \<noteq> []" "g_factor g \<noteq> 0"
    "0 < d1_n d \<Longrightarrow> g_grid g \<noteq> []"
    "g_sortgrid g = sort (g_grid g)" "g_cumsum g = cumsum (sort (g_grid g))"
proof -
  from assms obtain s where es: "ensure_spline fit d = Inr (s, d')"
    by (auto simp: initLimitGrids_def Let_def split: sum.splits if_splits prod.splits)
  note xd = ensure_spline_Inr [OF es]
  define f where "f = (case factor of None \<Rightarrow> max 2 (20000 div d1_n d') | Some k \<Rightarrow> k)"
  define bign where "bign = (int (d1_n d') - 1) * int f + 1"
  define grid where "grid = map (\<lambda>v. t_eval s 0 v)
      (map (\<lambda>k. d1_x d' ! 0 + real k * d1_spacing d' / real f) [0..<nat bign])"
  from assms es have c: "d1_x d' \<noteq> []" "f \<noteq> 0"
    and g: "g = \<lparr>g_factor = f, g_bign = bign, g_grid = grid,
                  g_norm = sum_list grid - 0.5 * last (data (self_P d'))
                             - 0.5 * data (self_P d') ! 0,
                  g_sortgrid = sort grid, g_cumsum = cumsum (sort grid)\<rparr>"
    by (auto simp: initLimitGrids_def Let_def splev_def f_def bign_def grid_def
        split: if_splits)
  show "d1_x d' = d1_x d" "d1_spacing d' = d1_spacing d" by (rule xd)+
  show "d1_x d \<noteq> []" using c xd by simp
  show "g_factor g \<noteq> 0" using c g by simp
  show "g_sortgrid g = sort (g_grid g)" using g by simp
  show "g_cumsum g = cumsum (sort (g_grid g))" using g by simp
  show "g_grid g \<noteq> []" if "0 < d1_n d"
  proof -
    have "0 \<le> (int (d1_n d') - 1) * int f" using that xd(3) by simp
    then have "0 < nat bign" by (simp add: bign_def)
    then show ?thesis using g by (simp add: grid_def)
  qed
qed

lemma sort_first_le:
  fixes xs :: "real list"
  assumes "v \<in> set xs"
  shows "sort xs ! 0 \<le> v"
proof -
  from assms have "v \<in> set (sort xs)" by simp
  then obtain k where k: "k < length (sort xs)" "sort xs ! k = v"
    by (metis in_set_conv_nth)
  have "sort xs ! 0 \<le> sort xs ! k"
    using k(1) by (intro sorted_nth_mono) simp_all
  then show ?thesis using k by simp
qed

lemma searchsorted_zero: "cs \<noteq> [] \<Longrightarrow> v \<le> cs ! 0 \<Longrightarrow> searchsorted cs v = 0"
  by (cases cs) (simp_all add: searchsorted_def)

lemma cumsum_first: "xs \<noteq> [] \<Longrightarrow> cumsum xs ! 0 = xs ! 0"
  by (cases xs) (simp_all add: cumsum_def)

lemma getLimits_with_Scalar:
  "getLimits_with d (Scalar p) g =
     (case limits_for d g (searchsorted (g_cumsum g) ((1 - p) * g_norm g)) ((1 - p) * g_norm g) of
        Inl e \<Rightarrow> Inl e
      | Inr r \<Rightarrow> Inr (Limits r))"
  by (simp add: getLimits_with_def split: sum.split)

lemma getLimits_with_PyList:
  "getLimits_with d (PyList (q # qs)) g = getLimits_with d (Scalar q) g"
  by (simp add: getLimits_with_def split: sum.split)

lemma getLimits_PyList:
  "getLimits fit d (PyList (q # qs)) interpGrid accuracy_factor =
   getLimits fit d (Scalar q) interpGrid accuracy_factor"
  by (simp add: getLimits_def getLimits_with_PyList split: option.split sum.split prod.split)

lemma limits_for_min_trial:
  assumes "g_grid g \<noteq> []" "g_sortgrid g = sort (g_grid g)" "g_factor g \<noteq> 0" "d1_x d \<noteq> []"
  shows "limits_for d g 0 target = Inr (d1_x d ! 0, last (d1_x d), True, True)"
proof -
  have ls: "g_sortgrid g \<noteq> []" using assms(1,2) by (metis length_sort length_0_conv)
  then have t: "limit_trial g 0 target = Inr (sort (g_grid g) ! 0)"
    using assms(1,2) by (simp add: limit_trial_def)
  have "g_grid g ! 0 \<in> set (g_grid g)" "last (g_grid g) \<in> set (g_grid g)"
    using assms(1) by simp_all
  then have le: "sort (g_grid g) ! 0 \<le> g_grid g ! 0" "sort (g_grid g) ! 0 \<le> last (g_grid g)"
    by (simp_all add: sort_first_le)
  have b: "limit_bot d g (sort (g_grid g) ! 0) (d1_spacing d / real (g_factor g))
      = Inr (d1_x d ! 0, True)"
    using assms le by (simp add: limit_bot_def)
  have u: "limit_top d g (sort (g_grid g) ! 0) (d1_spacing d / real (g_factor g))
      = Inr (last (d1_x d), True)"
    using assms le by (simp add: limit_top_def)
  show ?thesis
    using assms(3) by (simp add: limits_for_def t b u)
qed

text \<open>
  Claim C1, as amended. For every 1D density grid whose refined curve has no negative
  sample, \<open>getLimits\<close> with \<open>p = 1.0\<close> returns one tuple whose bounds are the edges of
  the domain, \<open>x[0]\<close> and \<open>x[-1]\<close>, whether the refined grid is built by the call or
  handed to it. (A density object has \<open>n = x.size\<close>.)

  The refined curve is a spline and may fall below zero between weights that are not
  negative: for \<open>x = [0,1,2,3]\<close> and \<open>P = [0,0,1,0]\<close> it is the cubic through the four
  points, \<open>-v(v-1)(v-3)/2\<close>, which is \<open>-5/16\<close> at \<open>1/2\<close>. The cumulative sum then
  starts below the target 0, the insertion index is positive and the bounds lie inside
  the domain. Where the bounds are the edges, both flags of the tuple are \<open>True\<close>.
\<close>

theorem getLimits_full_probability:
  assumes "d1_n d = length (d1_x d)"
    and "initLimitGrids fit d accuracy_factor = Inr (g, d')"
    and "\<forall>v \<in> set (g_grid g). 0 \<le> v"
  shows "\<exists>lim_bot lim_top.
           getLimits fit d (Scalar 1) None accuracy_factor
             = Inr (Limits (d1_x d ! 0, last (d1_x d), lim_bot, lim_top), d') \<and>
           getLimits fit d' (Scalar 1) (Some g) accuracy_factor
             = Inr (Limits (d1_x d ! 0, last (d1_x d), lim_bot, lim_top), d')"
proof -
  note i = initLimitGrids_Inr [OF assms(2)]
  have gne: "g_grid g \<noteq> []" using i(3,5) assms(1) by simp
  have sne: "sort (g_grid g) \<noteq> []" using gne by (metis length_sort length_0_conv)
  have "g_grid g ! 0 \<in> set (g_grid g)" using gne by simp
  then have "sort (g_grid g) ! 0 \<in> set (g_grid g)"
    using sne by (metis nth_mem length_greater_0_conv set_sort)
  then have "0 \<le> sort (g_grid g) ! 0" using assms(3) by simp
  then have "0 \<le> g_cumsum g ! 0" using sne by (simp add: i(7) cumsum_first)
  moreover have "g_cumsum g \<noteq> []"
    using sne length_cumsum [of "sort (g_grid g)"] by (auto simp: i(7))
  ultimately have ix: "searchsorted (g_cumsum g) 0 = 0" by (simp add: searchsorted_zero)
  have "d1_x d' \<noteq> []" using i(1,3) by simp
  with gne i(6,4) have "limits_for d' g 0 0 = Inr (d1_x d' ! 0, last (d1_x d'), True, True)"
    by (rule limits_for_min_trial)
  then have w: "getLimits_with d' (Scalar 1) g = Inr (Limits (d1_x d ! 0, last (d1_x d), True, True))"
    by (simp add: getLimits_with_Scalar ix i(1))
  have "getLimits fit d (Scalar 1) None accuracy_factor
      = Inr (Limits (d1_x d ! 0, last (d1_x d), True, True), d')"
    by (simp add: getLimits_def assms(2) w)
  moreover have "getLimits fit d' (Scalar 1) (Some g) accuracy_factor
      = Inr (Limits (d1_x d ! 0, last (d1_x d), True, True), d')"
    by (simp add: getLimits_def w)
  ultimately show ?thesis by blast
qed

theorem getLimits_full_probability_witness:
  "(\<exists>lim_bot lim_top d'.
      getLimits (\<lambda>xs ps der v. 1)
        \<lparr>axes = [[0, 1, 2, 3]], view_ranges = None :: unit option,
         self_P = array1 [1, 1, 1, 1], spl = None,
         d1_n = 4, d1_x = [0, 1, 2, 3], d1_spacing = 1\<rparr> (Scalar 1) None (Some 2)
      = Inr (Limits (0, 3, lim_bot, lim_top), d')) \<and>
   map_sum id fst
     (getLimits (\<lambda>xs ps der v. 1)
        \<lparr>axes = [[0, 1, 2, 3]], view_ranges = None :: unit option,
         self_P = array1 [1, 1, 1, 1], spl = None,
         d1_n = 4, d1_x = [0, 1, 2, 3], d1_spacing = 1\<rparr> (Scalar 1) None (Some 2))
     = Inr (Limits (0, 3, True, True))"
proof -
  let ?d = "\<lparr>axes = [[0, 1, 2, 3]], view_ranges = None :: unit option,
         self_P = array1 [1, 1, 1, 1], spl = None,
         d1_n = 4, d1_x = [0, 1, 2, 3], d1_spacing = 1\<rparr>"
  let ?R = "initLimitGrids (\<lambda>xs ps der v. 1) ?d (Some 2)"
  have "\<not> isl ?R" by code_simp
  then have r: "?R = Inr (fst (projr ?R), snd (projr ?R))" by (cases ?R) simp_all
  have "g_grid (fst (projr ?R)) = [1, 1, 1, 1, 1, 1, 1]" by code_simp
  then have nn: "\<forall>v \<in> set (g_grid (fst (projr ?R))). 0 \<le> v" by simp
  have n: "d1_n ?d = length (d1_x ?d)" by simp
  from getLimits_full_probability [OF n r nn]
  have "\<exists>lim_bot lim_top d'.
      getLimits (\<lambda>xs ps der v. 1) ?d (Scalar 1) None (Some 2)
      = Inr (Limits (0, 3, lim_bot, lim_top), d')"
    by auto
  moreover have "map_sum id fst (getLimits (\<lambda>xs ps der v. 1) ?d (Scalar 1) None (Some 2))
     = Inr (Limits (0, 3, True, True))"
    by code_simp
  ultimately show ?thesis by (rule conjI)
qed

theorem getLimits_full_probability_counterexample:
  "map (\<lambda>v :: real. - v * (v - 1) * (v - 3) / 2) [0, 1, 2, 3] = [0, 0, 1, 0] \<and>
   map_sum id fst
     (getLimits (\<lambda>xs ps der v. - v * (v - 1) * (v - 3) / 2)
        \<lparr>axes = [[0, 1, 2, 3]], view_ranges = None :: unit option,
         self_P = array1 [0, 0, 1, 0], spl = None,
         d1_n = 4, d1_x = [0, 1, 2, 3], d1_spacing = 1\<rparr> (Scalar 1) None (Some 2))
     = Inr (Limits (71 / 42, 47 / 18, False, False)) \<and>
   map_sum id fst
     (getLimits (\<lambda>xs ps der v. - v * (v - 1) * (v - 3) / 2)
        \<lparr>axes = [[0, 1, 2, 3]], view_ranges = None :: unit option,
         self_P = array1 [0, 0, 1, 0], spl = None,
         d1_n = 4, d1_x = [0, 1, 2, 3], d1_spacing = 1\<rparr> (Scalar 1) None (Some 2))
     \<noteq> Inr (Limits (0, 3, False, False)) \<and>
   map_sum id fst
     (getLimits (\<lambda>xs ps der v. 1)
        \<lparr>axes = [[0, 1, 2, 3]], view_ranges = None :: unit option,
         self_P = array1 [1, 1, 1, 1], spl = None,
         d1_n = 4, d1_x = [0, 1, 2, 3], d1_spacing = 1\<rparr> (Scalar 1) None (Some 2))
     = Inr (Limits (0, 3, True, True))"
proof -
  have "map_sum id fst
     (getLimits (\<lambda>xs ps der v. 1)
        \<lparr>axes = [[0, 1, 2, 3]], view_ranges = None :: unit option,
         self_P = array1 [1, 1, 1, 1], spl = None,
         d1_n = 4, d1_x = [0, 1, 2, 3], d1_spacing = 1\<rparr> (Scalar 1) None (Some 2))
     = Inr (Limits (0, 3, True, True))"
    by code_simp
  moreover have "map_sum id fst
     (getLimits (\<lambda>xs ps der v. - v * (v - 1) * (v - 3) / 2)
        \<lparr>axes = [[0, 1, 2, 3]], view_ranges = None :: unit option,
         self_P = array1 [0, 0, 1, 0], spl = None,
         d1_n = 4, d1_x = [0, 1, 2, 3], d1_spacing = 1\<rparr> (Scalar 1) None (Some 2))
     = Inr (Limits (71 / 42, 47 / 18, False, False))"
    by code_simp
  ultimately show ?thesis by simp
qed

text \<open>
  Claim C2. A sequence of \<open>k\<close> probabilities should give a list of \<open>k\<close> tuples. The code
  gives that for a numpy array only: for a Python list \<open>np.atleast_1d(p) is not p\<close>
  holds, and the first pass of the loop returns its tuple. On the grid \<open>x = [0,1,2,3]\<close>
  with \<open>P = [1,1,1,1]\<close>, refined twice, the list \<open>[0.68, 0.95]\<close> gives the one tuple
  of \<open>0.68\<close>, and the same two numbers in a numpy array give two tuples.
\<close>

theorem getLimits_list_gives_one_tuple:
  "map_sum id fst
     (getLimits (\<lambda>xs ps der v. 1)
        \<lparr>axes = [[0, 1, 2, 3]], view_ranges = None :: unit option,
         self_P = array1 [1, 1, 1, 1], spl = None,
         d1_n = 4, d1_x = [0, 1, 2, 3], d1_spacing = 1\<rparr>
        (PyList [68 / 100, 95 / 100]) None (Some 2))
     = Inr (Limits (0, 3, True, True)) \<and>
   map_sum id fst
     (getLimits (\<lambda>xs ps der v. 1)
        \<lparr>axes = [[0, 1, 2, 3]], view_ranges = None :: unit option,
         self_P = array1 [1, 1, 1, 1], spl = None,
         d1_n = 4, d1_x = [0, 1, 2, 3], d1_spacing = 1\<rparr>
        (NdArray [68 / 100, 95 / 100]) None (Some 2))
     = Inr (LimitsList [(0, 3, True, True), (0, 3, True, True)])"
  by code_simp

subsection \<open>Evaluating a 1D density\<close>

text \<open>
  Claim C9, as amended. \<open>Prob\<close> accepts a number or a sequence and always returns an
  array: a sequence of \<open>k\<close> coordinates gives \<open>k\<close> density values, and a number gives the
  array of one value that the one-element list of that number gives.
\<close>

theorem Prob_returns_array:
  assumes "Prob fit d xarg derivative = Inr (v, d')"
  shows "(\<exists>ys. v = Arr ys \<and> length ys = length (atleast_1d xarg)) \<and>
         (\<forall>a. Prob fit d (Scalar a) derivative = Prob fit d (PyList [a]) derivative)"
proof -
  from assms obtain s ys where
    "splev (case xarg of Scalar v \<Rightarrow> [v] | PyList vs \<Rightarrow> vs | NdArray vs \<Rightarrow> vs) s derivative 1 = Inr ys"
    and v: "v = Arr ys"
    by (auto simp: Prob_def split: sum.splits prod.splits)
  then have "length ys = length (case xarg of Scalar v \<Rightarrow> [v] | PyList vs \<Rightarrow> vs | NdArray vs \<Rightarrow> vs)"
    by (auto simp: splev_def split: if_splits)
  also have "\<dots> = length (atleast_1d xarg)" by (cases xarg) simp_all
  finally have "\<exists>ys. v = Arr ys \<and> length ys = length (atleast_1d xarg)" using v by simp
  moreover have "\<forall>a. Prob fit d (Scalar a) derivative = Prob fit d (PyList [a]) derivative"
    by (simp add: Prob_def split: sum.split prod.split)
  ultimately show ?thesis by (rule conjI)
qed

theorem Prob_returns_array_witness:
  "map_sum id fst
     (Prob (\<lambda>xs ps der v. 1)
        \<lparr>axes = [[0, 1, 2, 3]], view_ranges = None :: unit option,
         self_P = array1 [1, 1, 1, 1], spl = None,
         d1_n = 4, d1_x = [0, 1, 2, 3], d1_spacing = 1\<rparr> (PyList [1, 2, 5]) 0)
     = Inr (Arr [1, 1, 0]) \<and>
   (\<exists>ys. Arr [1, 1, 0] = Arr ys \<and> length ys = length (atleast_1d (PyList [1, 2, 5])))"
proof -
  let ?d = "\<lparr>axes = [[0, 1, 2, 3]], view_ranges = None :: unit option,
         self_P = array1 [1, 1, 1, 1], spl = None,
         d1_n = 4, d1_x = [0, 1, 2, 3], d1_spacing = 1\<rparr>"
  let ?R = "Prob (\<lambda>xs ps der v. 1) ?d (PyList [1, 2, 5]) 0"
  have e: "map_sum id fst ?R = Inr (Arr [1, 1, 0])" by code_simp
  then have r: "?R = Inr (Arr [1, 1, 0], snd (projr ?R))" by (cases ?R) auto
  from Prob_returns_array [OF r]
  have "\<exists>ys. Arr [1, 1, 0] = Arr ys \<and> length ys = length (atleast_1d (PyList [1, 2, 5]))"
    by blast
  with e show ?thesis by (rule conjI)
qed

theorem Prob_returns_array_counterexample:
  "map_sum id fst
     (Prob (\<lambda>xs ps der v. 1)
        \<lparr>axes = [[0, 1, 2, 3]], view_ranges = None :: unit option,
         self_P = array1 [1, 1, 1, 1], spl = None,
         d1_n = 4, d1_x = [0, 1, 2, 3], d1_spacing = 1\<rparr> (Scalar 1) 0)
     = Inr (Arr [1]) \<and>
   (\<forall>c. map_sum id fst
     (Prob (\<lambda>xs ps der v. 1)
        \<lparr>axes = [[0, 1, 2, 3]], view_ranges = None :: unit option,
         self_P = array1 [1, 1, 1, 1], spl = None,
         d1_n = 4, d1_x = [0, 1, 2, 3], d1_spacing = 1\<rparr> (Scalar 1) 0)
     \<noteq> Inr (Num c))"
proof -
  have "map_sum id fst
     (Prob (\<lambda>xs ps der v. 1)
        \<lparr>axes = [[0, 1, 2, 3]], view_ranges = None :: unit option,
         self_P = array1 [1, 1, 1, 1], spl = None,
         d1_n = 4, d1_x = [0, 1, 2, 3], d1_spacing = 1\<rparr> (Scalar 1) 0)
     = Inr (Arr [1])"
    by code_simp
  then show ?thesis by simp
qed

subsection \<open>The two interpolations\<close>

lemma limit_trial_Inr:
  assumes "limit_trial g ix target = Inr trial" "0 < ix"
  shows "ix + 1 < length (g_sortgrid g)" "ix < length (g_cumsum g)"
    "g_cumsum g ! ix \<noteq> g_cumsum g ! (ix - 1)"
    "trial = (1 - (g_cumsum g ! ix - target) / (g_cumsum g ! ix - g_cumsum g ! (ix - 1)))
                * g_sortgrid g ! ix
             + (g_cumsum g ! ix - target) / (g_cumsum g ! ix - g_cumsum g ! (ix - 1))
                * g_sortgrid g ! (ix + 1)"
  using assms by (auto simp: limit_trial_def Let_def split: if_splits)

lemma limits_for_Inr:
  assumes "limits_for d g ix target = Inr r"
  shows "\<exists>trial mn mx lb lt. limit_trial g ix target = Inr trial \<and> r = (mn, mx, lb, lt) \<and>
      limit_bot d g trial (d1_spacing d / real (g_factor g)) = Inr (mn, lb) \<and>
      limit_top d g trial (d1_spacing d / real (g_factor g)) = Inr (mx, lt)"
  using assms by (auto simp: limits_for_def Let_def split: sum.splits if_splits prod.splits)

text \<open>
  Claim C8. The two searches pair the sorted entries differently. Whenever the solver
  returns, the level of each requested contour is the interpolation between the sorted
  entries at \<open>ix - 1\<close> and \<open>ix\<close>, with \<open>ix\<close> the insertion index of its target. Whenever
  \<open>getLimits\<close> returns for a probability whose insertion index \<open>ix\<close> is positive, its
  bounds are those of the threshold interpolated between the sorted refined values at
  \<open>ix\<close> and \<open>ix + 1\<close>.
\<close>

theorem interpolation_pairings:
  fixes argsort :: "real list \<Rightarrow> nat list" and inbins :: ndarray and half_edge :: bool
    and contours :: "real list" and missing_norm p :: real and i :: nat and g :: InterpGrid
  defines "sg \<equiv> sortgrid_of argsort inbins (adjusted inbins half_edge)"
    and "cs \<equiv> cumsum_of argsort inbins (adjusted inbins half_edge)"
    and "t \<equiv> targets_of (adjusted inbins half_edge) contours missing_norm ! i"
    and "ix \<equiv> ixs_of argsort inbins (adjusted inbins half_edge) contours missing_norm ! i"
    and "target \<equiv> (1 - p) * g_norm g"
    and "jx \<equiv> searchsorted (g_cumsum g) ((1 - p) * g_norm g)"
  assumes "getContourLevels argsort inbins contours missing_norm half_edge = Inr levels"
    and "i < length contours"
    and "getLimits_with d (Scalar p) g = Inr r"
    and "0 < jx"
  shows "(0 < ix \<and> ix < length cs \<and>
         levels ! i = sg ! ix * (1 - (cs ! ix - t) / (cs ! ix - cs ! (ix - 1)))
                      + (cs ! ix - t) / (cs ! ix - cs ! (ix - 1)) * sg ! (ix - 1)) \<and>
        (jx + 1 < length (g_sortgrid g) \<and>
         (\<exists>mn mx lb lt. r = Limits (mn, mx, lb, lt) \<and>
            limit_bot d g
              ((1 - (g_cumsum g ! jx - target) / (g_cumsum g ! jx - g_cumsum g ! (jx - 1)))
                 * g_sortgrid g ! jx
               + (g_cumsum g ! jx - target) / (g_cumsum g ! jx - g_cumsum g ! (jx - 1))
                 * g_sortgrid g ! (jx + 1))
              (d1_spacing d / real (g_factor g)) = Inr (mn, lb) \<and>
            limit_top d g
              ((1 - (g_cumsum g ! jx - target) / (g_cumsum g ! jx - g_cumsum g ! (jx - 1)))
                 * g_sortgrid g ! jx
               + (g_cumsum g ! jx - target) / (g_cumsum g ! jx - g_cumsum g ! (jx - 1))
                 * g_sortgrid g ! (jx + 1))
              (d1_spacing d / real (g_factor g)) = Inr (mx, lt)))"
proof -
  let ?ab = "adjusted inbins half_edge"
  let ?ts = "targets_of ?ab contours missing_norm"
  let ?ixs = "ixs_of argsort inbins ?ab contours missing_norm"
  have eq: "contour_levels sg cs (zip ?ixs ?ts) = Inr levels"
    using assms(7) unfolding sg_def cs_def
    by (simp add: getContourLevels_eq solve_levels_def split: if_splits)
  have lts: "length ?ts = length contours" by (simp add: targets_of_def)
  have len: "i < length (zip ?ixs ?ts)" using assms(8) by (simp add: ixs_of_def lts)
  have it: "zip ?ixs ?ts ! i = (ix, t)"
    using assms(8) lts unfolding ix_def t_def by (simp add: ixs_of_def)
  from contour_levels_nth [OF eq len it]
  have A: "0 < ix \<and> ix < length cs \<and>
         levels ! i = sg ! ix * (1 - (cs ! ix - t) / (cs ! ix - cs ! (ix - 1)))
                      + (cs ! ix - t) / (cs ! ix - cs ! (ix - 1)) * sg ! (ix - 1)" .
  from assms(9) obtain q where lf: "limits_for d g jx target = Inr q" and r: "r = Limits q"
    unfolding jx_def target_def by (auto simp: getLimits_with_Scalar split: sum.splits)
  from limits_for_Inr [OF lf] obtain trial mn mx lb lt where
    tr: "limit_trial g jx target = Inr trial" and q: "q = (mn, mx, lb, lt)"
    and b: "limit_bot d g trial (d1_spacing d / real (g_factor g)) = Inr (mn, lb)"
    and u: "limit_top d g trial (d1_spacing d / real (g_factor g)) = Inr (mx, lt)"
    by blast
  note lt = limit_trial_Inr [OF tr assms(10)]
  have B: "jx + 1 < length (g_sortgrid g) \<and>
         (\<exists>mn mx lb lt. r = Limits (mn, mx, lb, lt) \<and>
            limit_bot d g
              ((1 - (g_cumsum g ! jx - target) / (g_cumsum g ! jx - g_cumsum g ! (jx - 1)))
                 * g_sortgrid g ! jx
               + (g_cumsum g ! jx - target) / (g_cumsum g ! jx - g_cumsum g ! (jx - 1))
                 * g_sortgrid g ! (jx + 1))
              (d1_spacing d / real (g_factor g)) = Inr (mn, lb) \<and>
            limit_top d g
              ((1 - (g_cumsum g ! jx - target) / (g_cumsum g ! jx - g_cumsum g ! (jx - 1)))
                 * g_sortgrid g ! jx
               + (g_cumsum g ! jx - target) / (g_cumsum g ! jx - g_cumsum g ! (jx - 1))
                 * g_sortgrid g ! (jx + 1))
              (d1_spacing d / real (g_factor g)) = Inr (mx, lt))"
    using lt(1) r q b u unfolding lt(4) by blast
  from A B show ?thesis by (rule conjI)
qed

theorem interpolation_pairings_witness:
  "getContourLevels stable_argsort (array1 [1, 2, 5, 2, 1]) [1 / 2, 4 / 5] 0 True = Inr [2, 5 / 4] \<and>
   sortgrid_of stable_argsort (array1 [1, 2, 5, 2, 1]) (adjusted (array1 [1, 2, 5, 2, 1]) True)
     = [1 / 2, 1 / 2, 2, 2, 5] \<and>
   cumsum_of stable_argsort (array1 [1, 2, 5, 2, 1]) (adjusted (array1 [1, 2, 5, 2, 1]) True)
     = [1 / 2, 1, 3, 5, 10] \<and>
   targets_of (adjusted (array1 [1, 2, 5, 2, 1]) True) [1 / 2, 4 / 5] 0 ! 1 = 2 \<and>
   ixs_of stable_argsort (array1 [1, 2, 5, 2, 1]) (adjusted (array1 [1, 2, 5, 2, 1]) True)
     [1 / 2, 4 / 5] 0 ! 1 = 2 \<and>
   [2, 5 / 4 :: real] ! 1 = 2 * (1 - (3 - 2) / (3 - 1)) + (3 - 2) / (3 - 1) * (1 / 2) \<and>
   getLimits_with
     \<lparr>axes = [[0, 1, 2, 3]], view_ranges = None :: unit option,
      self_P = array1 [0, 0, 1, 0], spl = None,
      d1_n = 4, d1_x = [0, 1, 2, 3], d1_spacing = 1\<rparr>
     (Scalar (68 / 100))
     \<lparr>g_factor = 2, g_bign = 7, g_grid = [0, - 5 / 16, 0, 9 / 16, 1, 15 / 16, 0],
      g_norm = 35 / 16,
      g_sortgrid = [- 5 / 16, 0, 0, 0, 9 / 16, 15 / 16, 1],
      g_cumsum = [- 5 / 16, - 5 / 16, - 5 / 16, - 5 / 16, 1 / 4, 19 / 16, 35 / 16]\<rparr>
     = Inr (Limits (344 / 175, 56 / 25, False, False)) \<and>
   searchsorted [- 5 / 16, - 5 / 16, - 5 / 16, - 5 / 16, 1 / 4, 19 / 16, 35 / 16]
     ((1 - 68 / 100) * (35 / 16)) = 5 \<and>
   5 + 1 < length [- 5 / 16, 0, 0, 0, 9 / 16, 15 / 16, 1 :: real]"
proof -
  let ?A = "array1 [1, 2, 5, 2, 1]"
  let ?d = "\<lparr>axes = [[0, 1, 2, 3]], view_ranges = None :: unit option,
      self_P = array1 [0, 0, 1, 0], spl = None,
      d1_n = 4, d1_x = [0, 1, 2, 3], d1_spacing = 1\<rparr>"
  let ?g = "\<lparr>g_factor = 2, g_bign = 7, g_grid = [0, - 5 / 16, 0, 9 / 16, 1, 15 / 16, 0],
      g_norm = 35 / 16,
      g_sortgrid = [- 5 / 16, 0, 0, 0, 9 / 16, 15 / 16, 1],
      g_cumsum = [- 5 / 16, - 5 / 16, - 5 / 16, - 5 / 16, 1 / 4, 19 / 16, 35 / 16]\<rparr>"
  have res: "getContourLevels stable_argsort ?A [1 / 2, 4 / 5] 0 True = Inr [2, 5 / 4]"
    by code_simp
  have sg: "sortgrid_of stable_argsort ?A (adjusted ?A True) = [1 / 2, 1 / 2, 2, 2, 5]"
    by code_simp
  have cs: "cumsum_of stable_argsort ?A (adjusted ?A True) = [1 / 2, 1, 3, 5, 10]"
    by code_simp
  have t: "targets_of (adjusted ?A True) [1 / 2, 4 / 5] 0 ! 1 = 2"
    by code_simp
  have ix: "ixs_of stable_argsort ?A (adjusted ?A True) [1 / 2, 4 / 5] 0 ! 1 = 2"
    by code_simp
  have i: "(1::nat) < length [1 / 2, 4 / 5 :: real]" by simp
  have lim: "getLimits_with ?d (Scalar (68 / 100)) ?g
      = Inr (Limits (344 / 175, 56 / 25, False, False))"
    by code_simp
  have jx: "searchsorted [- 5 / 16, - 5 / 16, - 5 / 16, - 5 / 16, 1 / 4, 19 / 16, 35 / 16]
     ((1 - 68 / 100) * (35 / 16 :: real)) = 5"
    by code_simp
  have jx0: "0 < searchsorted (g_cumsum ?g) ((1 - 68 / 100) * g_norm ?g)"
    using jx by simp
  from interpolation_pairings [OF res i lim jx0]
  have "[2, 5 / 4 :: real] ! 1 = 2 * (1 - (3 - 2) / (3 - 1)) + (3 - 2) / (3 - 1) * (1 / 2)"
    and "5 + 1 < length [- 5 / 16, 0, 0, 0, 9 / 16, 15 / 16, 1 :: real]"
    unfolding sg cs t ix by simp_all
  with res sg cs t ix lim jx show ?thesis by simp
qed

subsection \<open>Further facts\<close>

text \<open>
  The solver never divides by zero: an insertion index that is neither 0 nor past the
  end has the target strictly above the cumulative sum before it.
\<close>

lemma contour_levels_finite:
  "contour_levels sg cs (zip (map (searchsorted cs) ts) ts) \<noteq> Inl NonFinite"
proof (induction ts)
  case Nil
  show ?case by simp
next
  case (Cons t ts)
  let ?ix = "searchsorted cs t"
  show ?case
  proof (cases "?ix = 0 \<or> length cs \<le> ?ix")
    case True
    then show ?thesis by auto
  next
    case False
    then have "0 < ?ix" "?ix < length cs" by simp_all
    then have "cs ! (?ix - 1) < t" "t \<le> cs ! ?ix" by (rule searchsorted_bracket)+
    then have "cs ! ?ix - cs ! (?ix - 1) \<noteq> 0" by simp
    then show ?thesis using False Cons.IH by (auto simp: Let_def split: sum.split)
  qed
qed

lemma getContourLevels_finite:
  "getContourLevels argsort inbins contours missing_norm half_edge \<noteq> Inl NonFinite"
  by (simp add: getContourLevels_eq solve_levels_def ixs_of_def contour_levels_finite)

text \<open>
  The example of five bins raises for every order that \<open>argsort\<close> may give to the
  equal weights.
\<close>

lemma five_bins_adjusted: "adjusted (array1 [1, 2, 5, 2, 1]) True = array1 [1 / 2, 2, 5, 2, 1 / 2]"
  by code_simp

lemma five_bins_raise:
  assumes "argsort_ok argsort [1, 2, 5, 2, 1]"
  shows "getContourLevels argsort (array1 [1, 2, 5, 2, 1]) [999999 / 1000000] 0 True
           = Inl ContourOutOfRange"
proof -
  let ?A = "array1 [1, 2, 5, 2, 1]"
  let ?ab = "array1 [1 / 2, 2, 5, 2, 1 / 2]"
  let ?sg = "sortgrid_of argsort ?A ?ab"
  let ?cs = "cumsum_of argsort ?A ?ab"
  have ok: "argsort_ok argsort (data ?A)" using assms by (simp add: array1_def)
  have len: "length ?sg = 5" using length_sortgrid [OF ok, of ?ab] by (simp add: array1_def)
  then have ne: "?sg \<noteq> []" by auto
  have "?sg ! 0 \<in> set ?sg" using ne by simp
  also have "set ?sg = (!) [1 / 2, 2, 5, 2, 1 / 2 :: real] ` set (argsort [1, 2, 5, 2, 1])"
    by (simp add: sortgrid_of_def array1_def)
  also have "set (argsort [1, 2, 5, 2, 1]) = set [0..<5]"
  proof -
    have "length [1, 2, 5, 2, 1 :: real] = 5" by simp
    then have "mset (argsort [1, 2, 5, 2, 1]) = mset [0..<5]"
      using assms unfolding argsort_ok_def by metis
    then show ?thesis by (rule mset_eq_setD)
  qed
  finally have "?sg ! 0 \<in> (!) [1 / 2, 2, 5, 2, 1 / 2 :: real] ` {0..<5}" by simp
  then have "1 / 2 \<le> ?sg ! 0"
    by (auto simp: numeral_eq_Suc less_Suc_eq)
  then have "(1 - 999999 / 1000000) * 10 - 0 \<le> ?cs ! 0"
    using ne by (simp add: cumsum_of_def cumsum_first)
  moreover have "?cs \<noteq> []" using ne length_cumsum [of ?sg] by (auto simp: cumsum_of_def)
  ultimately have "searchsorted ?cs ((1 - 999999 / 1000000) * 10 - 0) = 0"
    by (simp add: searchsorted_zero)
  moreover have "targets_of ?ab [999999 / 1000000] 0 = [(1 - 999999 / 1000000) * 10 - 0]"
    by (simp add: targets_of_def array1_def)
  ultimately have "solve_levels argsort ?A ?ab [999999 / 1000000] 0 = Inl ContourOutOfRange"
    by (simp add: solve_levels_def ixs_of_def)
  then show ?thesis
    by (simp add: getContourLevels_eq five_bins_adjusted) (simp add: array1_def)
qed

lemma five_bins_density_raise:
  assumes "argsort_ok argsort [1, 2, 5, 2, 1]" and "self_P d = array1 [1, 2, 5, 2, 1]"
  shows "GridDensity_getContourLevels argsort d [999999 / 1000000] = Inl ContourOutOfRange"
  using five_bins_raise [OF assms(1)] by (simp add: GridDensity_getContourLevels_def assms(2))

text \<open>
  \<open>getLimits\<close> returns one tuple for a number and, for a numpy array of \<open>k\<close>
  probabilities, a list of \<open>k\<close> tuples.
\<close>

lemma limits_loop_same:
  "limits_loop d g True its acc = Inr r \<Longrightarrow>
   \<exists>ts. r = LimitsList (acc @ ts) \<and> length ts = length its"
proof (induction its arbitrary: acc)
  case Nil
  then show ?case by simp
next
  case (Cons p its)
  obtain ix t where p: "p = (ix, t)" by (cases p)
  from Cons.prems p obtain q where "limits_loop d g True its (acc @ [q]) = Inr r"
    by (auto split: sum.splits)
  from Cons.IH [OF this] obtain ts where "r = LimitsList ((acc @ [q]) @ ts)" "length ts = length its"
    by blast
  then have "r = LimitsList (acc @ (q # ts)) \<and> length (q # ts) = length (p # its)" by simp
  then show ?case by blast
qed

lemma getLimits_with_NdArray:
  assumes "getLimits_with d (NdArray ps) g = Inr r"
  shows "\<exists>ts. r = LimitsList ts \<and> length ts = length ps"
proof -
  let ?ts = "map (\<lambda>q. (1 - q) * g_norm g) ps"
  let ?its = "zip (map (searchsorted (g_cumsum g)) ?ts) ?ts"
  have "limits_loop d g True ?its [] = Inr r"
    using assms by (simp add: getLimits_with_def)
  from limits_loop_same [OF this] obtain ts where "r = LimitsList ts" "length ts = length ?its"
    by auto
  then show ?thesis by simp
qed

lemma getLimits_with_Scalar_Inr:
  assumes "getLimits_with d (Scalar p) g = Inr r"
  shows "\<exists>t. r = Limits t"
  using assms by (auto simp: getLimits_with_Scalar split: sum.splits)

text \<open>
  The integral of a 2D density is the trapezoidal rule in both directions: a cell has
  the weight one half for each of the two axes along which it lies on the boundary, a
  quarter at a corner, a half on an edge and one inside.
\<close>

lemma weighted_sum_ends:
  fixes g :: "nat \<Rightarrow> real"
  assumes "2 \<le> n"
  shows "(\<Sum>i \<leftarrow> [0..<n]. (if i = 0 \<or> i = n - 1 then 1 / 2 else 1) * g i)
       = g 0 / 2 + (\<Sum>i \<leftarrow> [1..<n - 1]. g i) + g (n - 1) / 2"
proof -
  define m where "m = n - 2"
  have n: "n = Suc (Suc m)" using assms by (simp add: m_def)
  have u1: "[0..<Suc (Suc m)] = [0..<Suc m] @ [Suc m]" by simp
  have u2: "[0..<Suc m] = 0 # [Suc 0..<Suc m]" by (rule upt_conv_Cons) simp
  have u: "[0..<n] = 0 # [1..<n - 1] @ [n - 1]"
    unfolding n using u1 u2 by simp
  have mid: "(\<Sum>i \<leftarrow> [1..<n - 1]. (if i = 0 \<or> i = n - 1 then 1 / 2 else 1) * g i)
      = (\<Sum>i \<leftarrow> [1..<n - 1]. g i)"
    by (rule arg_cong [where f = sum_list], rule map_cong) auto
  have "(\<Sum>i \<leftarrow> [0..<n]. (if i = 0 \<or> i = n - 1 then 1 / 2 else 1) * g i)
      = (\<Sum>i \<leftarrow> 0 # [1..<n - 1] @ [n - 1]. (if i = 0 \<or> i = n - 1 then 1 / 2 else 1) * g i)"
    by (simp only: u [symmetric])
  also have "\<dots> = g 0 / 2
      + (\<Sum>i \<leftarrow> [1..<n - 1]. (if i = 0 \<or> i = n - 1 then 1 / 2 else 1) * g i) + g (n - 1) / 2"
    by simp
  finally show ?thesis by (simp only: mid)
qed

lemma sum_list_halves:
  fixes a b m :: "nat \<Rightarrow> real"
  shows "(\<Sum>i \<leftarrow> xs. a i / 2 + m i + b i / 2)
       = (\<Sum>i \<leftarrow> xs. a i) / 2 + (\<Sum>i \<leftarrow> xs. m i) + (\<Sum>i \<leftarrow> xs. b i) / 2"
  by (induction xs) (simp_all add: add_divide_distrib)

lemma Density2D_integrate_trapezoid:
  assumes "shape P = [r, c]" "2 \<le> r" "2 \<le> c"
  shows "Density2D_integrate d P =
     Inr ((\<Sum>i \<leftarrow> [0..<r]. \<Sum>j \<leftarrow> [0..<c].
             (if i = 0 \<or> i = r - 1 then 1 / 2 else 1) * ((if j = 0 \<or> j = c - 1 then 1 / 2 else 1)
               * at2 P i j)) * d2_spacing d)"
proof -
  let ?w = "\<lambda>n k. if k = 0 \<or> k = n - 1 then 1 / 2 else (1::real)"
  have inner: "\<And>i. (\<Sum>j \<leftarrow> [0..<c]. ?w c j * at2 P i j)
      = at2 P i 0 / 2 + (\<Sum>j \<leftarrow> [1..<c - 1]. at2 P i j) + at2 P i (c - 1) / 2"
    using assms(3) by (rule weighted_sum_ends)
  have "(\<Sum>i \<leftarrow> [0..<r]. \<Sum>j \<leftarrow> [0..<c]. ?w r i * (?w c j * at2 P i j))
      = (\<Sum>i \<leftarrow> [0..<r]. ?w r i * (\<Sum>j \<leftarrow> [0..<c]. ?w c j * at2 P i j))"
    by (simp only: sum_list_const_mult)
  also have "\<dots> = (\<Sum>i \<leftarrow> [0..<r]. ?w r i *
      (at2 P i 0 / 2 + (\<Sum>j \<leftarrow> [1..<c - 1]. at2 P i j) + at2 P i (c - 1) / 2))"
    by (simp only: inner)
  also have "\<dots> =
      (at2 P 0 0 / 2 + (\<Sum>j \<leftarrow> [1..<c - 1]. at2 P 0 j) + at2 P 0 (c - 1) / 2) / 2
      + (\<Sum>i \<leftarrow> [1..<r - 1].
           at2 P i 0 / 2 + (\<Sum>j \<leftarrow> [1..<c - 1]. at2 P i j) + at2 P i (c - 1) / 2)
      + (at2 P (r - 1) 0 / 2 + (\<Sum>j \<leftarrow> [1..<c - 1]. at2 P (r - 1) j)
           + at2 P (r - 1) (c - 1) / 2) / 2"
    using assms(2) by (rule weighted_sum_ends)
  also have "(\<Sum>i \<leftarrow> [1..<r - 1].
           at2 P i 0 / 2 + (\<Sum>j \<leftarrow> [1..<c - 1]. at2 P i j) + at2 P i (c - 1) / 2)
      = (\<Sum>i \<leftarrow> [1..<r - 1]. at2 P i 0) / 2
        + (\<Sum>i \<leftarrow> [1..<r - 1]. \<Sum>j \<leftarrow> [1..<c - 1]. at2 P i j)
        + (\<Sum>i \<leftarrow> [1..<r - 1]. at2 P i (c - 1)) / 2"
    by (rule sum_list_halves)
  finally have "(\<Sum>i \<leftarrow> [0..<r]. \<Sum>j \<leftarrow> [0..<c]. ?w r i * (?w c j * at2 P i j))
      = (\<Sum>i \<leftarrow> [1..<r - 1]. \<Sum>j \<leftarrow> [1..<c - 1]. at2 P i j)
        + (at2 P 0 0 + at2 P 0 (c - 1) + at2 P (r - 1) 0 + at2 P (r - 1) (c - 1)) / 4
        + ((\<Sum>i \<leftarrow> [1..<r - 1]. at2 P i 0) + (\<Sum>j \<leftarrow> [1..<c - 1]. at2 P 0 j)
           + (\<Sum>i \<leftarrow> [1..<r - 1]. at2 P i (c - 1))
           + (\<Sum>j \<leftarrow> [1..<c - 1]. at2 P (r - 1) j)) / 2"
    by (simp add: add_divide_distrib)
  then show ?thesis
    using assms by (simp add: Density2D_integrate_def Let_def)
qed

end
